theory Spec2Isabelle
  imports Main "HOL-Library.Char_ord" "HOL-Library.List_Lexorder" "HOL-Library.Multiset"
begin

section \<open>Data model (core/models.py)\<close>

text \<open>
  A Python \<^verbatim>\<open>str\<close> is a sequence of Unicode code points; \<open>str\<close> writes down the
  code points of an ASCII literal.
\<close>

type_synonym pystr = "nat list"

definition str :: "string \<Rightarrow> pystr" where
  "str s = map of_char s"

text \<open>
  A timestamp is a count of microseconds on the proleptic Gregorian time line, counted
  from the start of ordinal day 0 (ordinal day 1 is 0001-01-01, as in Python's
  \<^verbatim>\<open>datetime\<close>). The database holds instants in UTC (\<^verbatim>\<open>USE_TZ = True\<close>). The
  audit columns \<^verbatim>\<open>created_at\<close>, \<^verbatim>\<open>updated_at\<close>, \<^verbatim>\<open>added_at\<close> and the
  Attachment table play no part in import or dispatch and are left out.
\<close>

type_synonym timestamp = int

record user =
  uid :: nat
  username :: pystr
  email :: pystr

record event =
  eid :: nat
  user_id :: nat
  title :: pystr
  description :: pystr
  due_at :: timestamp
  status :: pystr

record label =
  lid :: nat
  label_user_id :: nat
  name :: pystr
  colour :: pystr

record event_label =
  el_event_id :: nat
  el_label_id :: nat

record reminder =
  rid :: nat
  event_id :: nat
  channel :: pystr
  send_at :: timestamp
  is_sent :: bool
  sent_at :: "timestamp option"

record database =
  users :: "user list"
  events :: "event list"
  labels :: "label list"
  event_labels :: "event_label list"
  reminders :: "reminder list"

definition STATUS_OPEN :: pystr where
  "STATUS_OPEN = str ''open''"

definition CHANNEL_EMAIL :: pystr where
  "CHANNEL_EMAIL = str ''email''"

datatype error =
  CommandError pystr
  | MultipleObjectsReturned
  | OverflowError
  | TransportError

section \<open>Reminder dispatch (deadlines/tasks.py)\<close>

record mail =
  subject :: pystr
  body :: pystr
  from_email :: pystr
  recipient_list :: "pystr list"

text \<open>
  What the task takes from its surroundings: the two renderings of a due date
  (\<^verbatim>\<open>strftime\<close> with \<^verbatim>\<open>%Y-%m-%d %H:%M\<close> and \<^verbatim>\<open>isoformat\<close>), the sender
  address of the settings, and the mail transport. The transport is a function of the
  mails delivered so far and of the mail at hand; \<open>False\<close> is the exception that
  \<^verbatim>\<open>send_mail(..., fail_silently=False)\<close> raises.
\<close>

record env =
  strftime_due :: "timestamp \<Rightarrow> pystr"
  isoformat_due :: "timestamp \<Rightarrow> pystr"
  DEFAULT_FROM_EMAIL :: pystr
  transport :: "mail list \<Rightarrow> mail \<Rightarrow> bool"

type_synonym candidate = "reminder \<times> event \<times> user"

definition get_event :: "database \<Rightarrow> nat \<Rightarrow> event option" where
  "get_event d i = find (\<lambda>e. eid e = i) (events d)"

definition get_user :: "database \<Rightarrow> nat \<Rightarrow> user option" where
  "get_user d i = find (\<lambda>u. uid u = i) (users d)"

text \<open>\<^verbatim>\<open>select_related("event", "event__user")\<close>: an inner join over the two foreign keys.\<close>

definition select_related :: "database \<Rightarrow> reminder \<Rightarrow> candidate option" where
  "select_related d r =
     (case get_event d (event_id r) of
        None \<Rightarrow> None
      | Some e \<Rightarrow> (case get_user d (user_id e) of
                    None \<Rightarrow> None
                  | Some u \<Rightarrow> Some (r, e, u)))"

definition is_due :: "timestamp \<Rightarrow> reminder \<Rightarrow> bool" where
  "is_due now r = (\<not> is_sent r \<and> send_at r \<le> now)"

text \<open>
  The query of lines 31-36:
  \<^verbatim>\<open>.filter(is_sent=False, send_at__lte=now).order_by("send_at")[:200]\<close>.
  Rows of equal \<^verbatim>\<open>send_at\<close> keep their table order.
\<close>

definition due_reminders :: "timestamp \<Rightarrow> database \<Rightarrow> candidate list" where
  "due_reminders now d =
     take 200 (sort_key (\<lambda>c. send_at (fst c))
       (filter (\<lambda>c. is_due now (fst c)) (List.map_filter (select_related d) (reminders d))))"

fun join_str :: "pystr \<Rightarrow> pystr list \<Rightarrow> pystr" where
  "join_str sep [] = []"
| "join_str sep [x] = x"
| "join_str sep (x # y # ys) = x @ sep @ join_str sep (y # ys)"

text \<open>\<^verbatim>\<open>reminder.event.labels.all()\<close>: the labels joined through EventLabel, in the
  default ordering of Label (by name).\<close>

definition event_labels_all :: "database \<Rightarrow> event \<Rightarrow> label list" where
  "event_labels_all d e =
     sort_key name
       (filter (\<lambda>l. lid l \<in> set (map el_label_id
                                    (filter (\<lambda>el. el_event_id el = eid e) (event_labels d))))
          (labels d))"

definition compose_mail :: "env \<Rightarrow> database \<Rightarrow> candidate \<Rightarrow> mail" where
  "compose_mail ev d c =
     (case c of (r, e, u) \<Rightarrow>
        let subj = str ''Reminder: '' @ title e @ str '' (due '' @ strftime_due ev (due_at e) @ str '')'';
            lbls = join_str (str '', '') (map name (event_labels_all d e));
            body_lines =
              [if description e = [] then str ''No description.'' else description e]
              @ (if lbls = [] then [] else [str ''Labels: '' @ lbls])
              @ [str ''Due: '' @ isoformat_due ev (due_at e)]
              @ [str ''Event owner: '' @ username u]
        in \<lparr>subject = subj,
            body = join_str [0x0A, 0x0A] body_lines,
            from_email = DEFAULT_FROM_EMAIL ev,
            recipient_list = [email u]\<rparr>)"

text \<open>\<^verbatim>\<open>reminder.save(update_fields=["is_sent", "sent_at"])\<close> after the two assignments:
  an update of the row with the reminder's primary key, committed at once.\<close>

definition save_sent :: "database \<Rightarrow> reminder \<Rightarrow> timestamp \<Rightarrow> database" where
  "save_sent d r now =
     d\<lparr>reminders :=
         map (\<lambda>x. if rid x = rid r then x\<lparr>is_sent := True, sent_at := Some now\<rparr> else x)
           (reminders d)\<rparr>"

text \<open>
  The loop of lines 38-67 over the fetched candidates. The state is the database, the
  mails delivered and \<^verbatim>\<open>sent_count\<close>; an exception of the transport leaves the loop
  with the database as it is at that moment.
\<close>

fun dispatch_loop ::
  "env \<Rightarrow> timestamp \<Rightarrow> candidate list \<Rightarrow> database \<Rightarrow> mail list \<Rightarrow> nat
     \<Rightarrow> database \<times> mail list \<times> (error + nat)" where
  "dispatch_loop ev now [] d ob sent_count = (d, ob, Inr sent_count)"
| "dispatch_loop ev now (c # cs) d ob sent_count =
     (if email (snd (snd c)) = [] then dispatch_loop ev now cs d ob sent_count
      else
        let m = compose_mail ev d c in
        if transport ev ob m
        then dispatch_loop ev now cs (save_sent d (fst c) now) (ob @ [m]) (sent_count + 1)
        else (d, ob, Inl TransportError))"

definition send_due_reminders ::
  "env \<Rightarrow> timestamp \<Rightarrow> database \<Rightarrow> mail list \<Rightarrow> database \<times> mail list \<times> (error + nat)" where
  "send_due_reminders ev now d ob = dispatch_loop ev now (due_reminders now d) d ob 0"

section \<open>CSV import (core/management/commands/import\_deadlines.py)\<close>

subsection \<open>Datetimes of the Python runtime\<close>

text \<open>
  An aware \<^verbatim>\<open>datetime\<close>: its wall-clock fields as a timestamp, its \<^verbatim>\<open>fold\<close>, and its
  \<^verbatim>\<open>tzinfo\<close> as the function \<^verbatim>\<open>utcoffset\<close> of the wall-clock fields and the fold, in
  microseconds.
\<close>

record aware =
  wall :: timestamp
  dt_fold :: bool
  utcoffset :: "timestamp \<Rightarrow> bool \<Rightarrow> int"

text \<open>
  What the command takes from its runtime: \<^verbatim>\<open>parser.parse\<close> of dateutil followed by
  \<^verbatim>\<open>make_aware\<close> where the result is naive (\<open>None\<close> is any exception of the two), the
  decimal digit value that the Unicode database of the interpreter gives a code point
  (\<^verbatim>\<open>Py_UNICODE_TODECIMAL\<close>), and the interpreter's limit on the digits of an integer
  text (\<^verbatim>\<open>sys.get_int_max_str_digits()\<close>, 4300 by default, 0 for none).
\<close>

record runtime =
  parser_parse :: "pystr \<Rightarrow> aware option"
  unicode_decimal :: "nat \<Rightarrow> nat option"
  int_max_str_digits :: nat

subsection \<open>Strings and integers of the Python runtime\<close>

text \<open>\<^verbatim>\<open>str.strip()\<close> removes leading and trailing white space: the code points of
  \<^verbatim>\<open>Py_UNICODE_ISSPACE\<close>.\<close>

definition is_space :: "nat \<Rightarrow> bool" where
  "is_space c = (c \<in> set ([0x09, 0x0A, 0x0B, 0x0C, 0x0D, 0x1C, 0x1D, 0x1E, 0x1F, 0x20,
                            0x85, 0xA0, 0x1680] @ [0x2000..<0x200B]
                           @ [0x2028, 0x2029, 0x202F, 0x205F, 0x3000]))"

definition strip :: "pystr \<Rightarrow> pystr" where
  "strip s = rev (dropWhile is_space (rev (dropWhile is_space s)))"

text \<open>\<^verbatim>\<open>str.split(sep)\<close> for a separator of one code point.\<close>

fun split_on :: "nat \<Rightarrow> pystr \<Rightarrow> pystr list" where
  "split_on sep [] = [[]]"
| "split_on sep (c # cs) =
     (if c = sep then [] # split_on sep cs
      else (case split_on sep cs of
              [] \<Rightarrow> [[c]]
            | p # ps \<Rightarrow> (c # p) # ps))"

text \<open>
  \<^verbatim>\<open>int(s)\<close> on a string, \<open>None\<close> for ValueError. The interpreter first maps the text
  to ASCII: a code point below 127 stays, another white space becomes a blank, another
  decimal digit becomes its ASCII digit, and anything else becomes a question mark
  (where the interpreter also cuts the text, which fails either way).
\<close>

definition to_ascii :: "runtime \<Rightarrow> nat \<Rightarrow> nat" where
  "to_ascii rt c =
     (if c < 127 then c
      else if is_space c then 0x20
      else (case unicode_decimal rt c of Some v \<Rightarrow> 0x30 + v | None \<Rightarrow> 0x3F))"

text \<open>The white space that the parser of integers skips at both ends (\<^verbatim>\<open>Py_ISSPACE\<close>).\<close>

definition ascii_space :: "nat \<Rightarrow> bool" where
  "ascii_space c = (c \<in> set [0x09, 0x0A, 0x0B, 0x0C, 0x0D, 0x20])"

definition digit_val :: "nat \<Rightarrow> nat option" where
  "digit_val c = (if 0x30 \<le> c \<and> c \<le> 0x39 then Some (c - 0x30) else None)"

text \<open>The digits after the first one: single underscores (0x5F) may separate digits.\<close>

fun parse_digits :: "nat \<Rightarrow> pystr \<Rightarrow> nat option" where
  "parse_digits acc [] = Some acc"
| "parse_digits acc [c] =
     (case digit_val c of None \<Rightarrow> None | Some v \<Rightarrow> Some (acc * 10 + v))"
| "parse_digits acc (c # c' # cs) =
     (if c = 0x5F
      then (case digit_val c' of None \<Rightarrow> None | Some v \<Rightarrow> parse_digits (acc * 10 + v) cs)
      else (case digit_val c of
              None \<Rightarrow> None
            | Some v \<Rightarrow> parse_digits (acc * 10 + v) (c' # cs)))"

text \<open>
  White space around, an optional sign (0x2B, 0x2D), decimal digits. A text of more than
  640 digits that exceeds the limit of the interpreter is refused.
\<close>

definition py_int :: "runtime \<Rightarrow> pystr \<Rightarrow> int option" where
  "py_int rt s =
     (let t = rev (dropWhile ascii_space (rev (dropWhile ascii_space (map (to_ascii rt) s))));
          neg = (t \<noteq> [] \<and> hd t = 0x2D);
          ds = (if t \<noteq> [] \<and> (hd t = 0x2D \<or> hd t = 0x2B) then tl t else t);
          digits = length (filter (\<lambda>c. c \<noteq> 0x5F) ds)
      in if 0 < int_max_str_digits rt \<and> 640 < digits \<and> int_max_str_digits rt < digits
         then None
         else
           (case ds of
              [] \<Rightarrow> None
            | c # cs \<Rightarrow>
                (case digit_val c of
                   None \<Rightarrow> None
                 | Some v \<Rightarrow>
                     (case parse_digits v cs of
                        None \<Rightarrow> None
                      | Some n \<Rightarrow> Some (if neg then - int n else int n)))))"

subsection \<open>Arithmetic on datetimes\<close>

text \<open>
  \<^verbatim>\<open>timedelta(minutes=m)\<close> and \<^verbatim>\<open>datetime - timedelta\<close>. A timedelta holds at most
  999999999 days in either direction, a datetime lies between 0001-01-01 00:00:00 and
  9999-12-31 23:59:59.999999; outside, both operations raise OverflowError. The
  subtraction works on the wall-clock fields and keeps the \<^verbatim>\<open>tzinfo\<close>; its result has
  fold 0.
\<close>

definition timedelta_minutes :: "int \<Rightarrow> error + int" where
  "timedelta_minutes m =
     (if \<bar>m div 1440\<bar> \<le> 999999999 then Inr (m * 60000000) else Inl OverflowError)"

definition DATETIME_MIN :: timestamp where
  "DATETIME_MIN = 86400000000"

definition DATETIME_MAX :: timestamp where
  "DATETIME_MAX = 3652059 * 86400000000 + 86399999999"

definition datetime_sub :: "aware \<Rightarrow> int \<Rightarrow> error + aware" where
  "datetime_sub a delta =
     (if DATETIME_MIN \<le> wall a - delta \<and> wall a - delta \<le> DATETIME_MAX
      then Inr (a\<lparr>wall := wall a - delta, dt_fold := False\<rparr>)
      else Inl OverflowError)"

text \<open>
  What the adapter of the database of the settings (SQLite) does with an aware datetime
  when a row is saved (\<^verbatim>\<open>make_naive(value, utc)\<close>, that is
  \<^verbatim>\<open>value.astimezone(utc)\<close>): the UTC offset is subtracted from the wall-clock
  fields, with OverflowError outside the datetimes.
\<close>

definition astimezone_utc :: "aware \<Rightarrow> error + timestamp" where
  "astimezone_utc a =
     (let t = wall a - utcoffset a (wall a) (dt_fold a)
      in if DATETIME_MIN \<le> t \<and> t \<le> DATETIME_MAX then Inr t else Inl OverflowError)"

text \<open>The calendar, to write timestamps down: the ordinal of a date as
  \<^verbatim>\<open>date.toordinal\<close> computes it.\<close>

definition is_leap :: "int \<Rightarrow> bool" where
  "is_leap y = (y mod 4 = 0 \<and> (y mod 100 \<noteq> 0 \<or> y mod 400 = 0))"

definition days_before_year :: "int \<Rightarrow> int" where
  "days_before_year y = (y - 1) * 365 + (y - 1) div 4 - (y - 1) div 100 + (y - 1) div 400"

definition days_in_month :: "int \<Rightarrow> nat \<Rightarrow> int" where
  "days_in_month y m =
     (if m = 2 then (if is_leap y then 29 else 28)
      else if m \<in> set [4, 6, 9, 11] then 30 else 31)"

definition days_before_month :: "int \<Rightarrow> nat \<Rightarrow> int" where
  "days_before_month y m = sum_list (map (days_in_month y) [1..<m])"

definition ymd2ord :: "int \<Rightarrow> nat \<Rightarrow> int \<Rightarrow> int" where
  "ymd2ord y m dd = days_before_year y + days_before_month y m + dd"

definition mk_datetime :: "int \<Rightarrow> nat \<Rightarrow> int \<Rightarrow> int \<Rightarrow> int \<Rightarrow> timestamp" where
  "mk_datetime y m dd hh mi = ((ymd2ord y m dd * 24 + hh) * 60 + mi) * 60000000"

subsection \<open>Reading and validating the rows\<close>

type_synonym csv_row = "pystr \<rightharpoonup> pystr"

type_synonym parsed_row = "pystr \<times> pystr \<times> aware \<times> int list \<times> pystr list"

text \<open>One entry of \<^verbatim>\<open>errors\<close>: the row number and, where the message quotes it, the
  offending text.\<close>

datatype row_error =
  MissingTitle nat
  | InvalidDueAt nat pystr
  | InvalidOffsets nat pystr

text \<open>\<^verbatim>\<open>(row.get(k) or "").strip()\<close>\<close>

definition field :: "csv_row \<Rightarrow> pystr \<Rightarrow> pystr" where
  "field row k = strip (case row k of None \<Rightarrow> [] | Some v \<Rightarrow> v)"

text \<open>The list comprehension of line 88 (the separator is the comma, 0x2C); \<open>None\<close> is
  its ValueError.\<close>

definition parse_offsets :: "runtime \<Rightarrow> pystr \<Rightarrow> int list option" where
  "parse_offsets rt offsets_raw =
     (if offsets_raw = [] then Some []
      else those (map (\<lambda>val. py_int rt (strip val))
                   (filter (\<lambda>val. strip val \<noteq> []) (split_on 0x2C offsets_raw))))"

text \<open>The list comprehension of line 96 (the separator is the semicolon, 0x3B).\<close>

definition parse_labels :: "pystr \<Rightarrow> pystr list" where
  "parse_labels labels_raw =
     (if labels_raw = [] then []
      else map strip (filter (\<lambda>nm. strip nm \<noteq> []) (split_on 0x3B labels_raw)))"

text \<open>The body of the reading loop (lines 71-97).\<close>

definition parse_row :: "runtime \<Rightarrow> nat \<Rightarrow> csv_row \<Rightarrow> row_error + parsed_row" where
  "parse_row rt idx row =
     (let ttl = field row (str ''title'') in
      if ttl = [] then Inl (MissingTitle idx)
      else
        let descr = field row (str ''description'');
            due_raw = field row (str ''due_at'') in
        case parser_parse rt due_raw of
          None \<Rightarrow> Inl (InvalidDueAt idx due_raw)
        | Some due \<Rightarrow>
            let offsets_raw = field row (str ''reminders_minutes_before'') in
            case parse_offsets rt offsets_raw of
              None \<Rightarrow> Inl (InvalidOffsets idx offsets_raw)
            | Some offsets \<Rightarrow>
                Inr (ttl, descr, due, offsets, parse_labels (field row (str ''labels''))))"

fun read_rows ::
  "runtime \<Rightarrow> nat \<Rightarrow> csv_row list \<Rightarrow> row_error list \<Rightarrow> parsed_row list
     \<Rightarrow> row_error list \<times> parsed_row list" where
  "read_rows rt idx [] errors events_to_create = (errors, events_to_create)"
| "read_rows rt idx (row # rows) errors events_to_create =
     (case parse_row rt idx row of
        Inl err \<Rightarrow> read_rows rt (idx + 1) rows (errors @ [err]) events_to_create
      | Inr p \<Rightarrow> read_rows rt (idx + 1) rows errors (events_to_create @ [p]))"

subsection \<open>Creating the records\<close>

text \<open>A fresh primary key: above every key of the table.\<close>

definition next_id :: "nat list \<Rightarrow> nat" where
  "next_id ids = Suc (fold max ids 0)"

text \<open>\<^verbatim>\<open>Event.objects.create\<close>: the due time is converted to UTC for the column; when
  that raises, no row is written.\<close>

definition create_event ::
  "database \<Rightarrow> user \<Rightarrow> pystr \<Rightarrow> pystr \<Rightarrow> aware \<Rightarrow> database \<times> (error + event)" where
  "create_event d u ttl descr due =
     (case astimezone_utc due of
        Inl err \<Rightarrow> (d, Inl err)
      | Inr t \<Rightarrow>
          let e = \<lparr>eid = next_id (map eid (events d)), user_id = uid u, title = ttl,
                   description = descr, due_at = t, status = STATUS_OPEN\<rparr>
          in (d\<lparr>events := events d @ [e]\<rparr>, Inr e))"

definition get_or_create_label :: "database \<Rightarrow> user \<Rightarrow> pystr \<Rightarrow> database \<times> label" where
  "get_or_create_label d u nm =
     (case find (\<lambda>l. label_user_id l = uid u \<and> name l = nm) (labels d) of
        Some l \<Rightarrow> (d, l)
      | None \<Rightarrow>
          let l = \<lparr>lid = next_id (map lid (labels d)), label_user_id = uid u, name = nm,
                   colour = []\<rparr>
          in (d\<lparr>labels := labels d @ [l]\<rparr>, l))"

definition labels_add :: "database \<Rightarrow> event \<Rightarrow> label \<Rightarrow> database" where
  "labels_add d e l =
     (if filter (\<lambda>el. el_event_id el = eid e \<and> el_label_id el = lid l) (event_labels d) \<noteq> []
      then d
      else d\<lparr>event_labels := event_labels d @ [\<lparr>el_event_id = eid e, el_label_id = lid l\<rparr>]\<rparr>)"

fun assign_labels :: "database \<Rightarrow> user \<Rightarrow> event \<Rightarrow> pystr list \<Rightarrow> database" where
  "assign_labels d u e [] = d"
| "assign_labels d u e (nm # nms) =
     (case get_or_create_label d u nm of
        (d1, l) \<Rightarrow> assign_labels (labels_add d1 e l) u e nms)"

text \<open>\<^verbatim>\<open>Reminder.objects.create\<close>: the send time is converted to UTC for the column;
  when that raises, no row is written.\<close>

definition create_reminder :: "database \<Rightarrow> event \<Rightarrow> aware \<Rightarrow> database \<times> (error + unit)" where
  "create_reminder d e a =
     (case astimezone_utc a of
        Inl err \<Rightarrow> (d, Inl err)
      | Inr t \<Rightarrow>
          (d\<lparr>reminders := reminders d @
              [\<lparr>rid = next_id (map rid (reminders d)), event_id = eid e,
                channel = CHANNEL_EMAIL, send_at = t, is_sent = False, sent_at = None\<rparr>]\<rparr>,
           Inr ()))"

text \<open>The loop of lines 116-121; an OverflowError leaves it with what has been created.\<close>

fun create_reminders ::
  "database \<Rightarrow> event \<Rightarrow> aware \<Rightarrow> int list \<Rightarrow> database \<times> (error + unit)" where
  "create_reminders d e due [] = (d, Inr ())"
| "create_reminders d e due (minutes # offsets) =
     (case timedelta_minutes minutes of
        Inl err \<Rightarrow> (d, Inl err)
      | Inr delta \<Rightarrow>
          (case datetime_sub due delta of
             Inl err \<Rightarrow> (d, Inl err)
           | Inr a \<Rightarrow>
               (case create_reminder d e a of
                  (d1, Inl err) \<Rightarrow> (d1, Inl err)
                | (d1, Inr _) \<Rightarrow> create_reminders d1 e due offsets)))"

text \<open>The loop of lines 104-122.\<close>

fun create_events ::
  "database \<Rightarrow> user \<Rightarrow> parsed_row list \<Rightarrow> nat \<Rightarrow> database \<times> (error + nat)" where
  "create_events d u [] created = (d, Inr created)"
| "create_events d u ((ttl, descr, due, offsets, label_names) # ps) created =
     (case create_event d u ttl descr due of
        (d1, Inl err) \<Rightarrow> (d1, Inl err)
      | (d1, Inr e) \<Rightarrow>
          (case create_reminders (assign_labels d1 u e label_names) e due offsets of
             (d2, Inl err) \<Rightarrow> (d2, Inl err)
           | (d2, Inr _) \<Rightarrow> create_events d2 u ps (created + 1)))"

text \<open>
  \<^verbatim>\<open>Command.handle\<close>. The result is the database, what was written to stderr, and
  either the exception that ended the command or the number of events imported.
\<close>

definition import_deadlines ::
  "runtime \<Rightarrow> database \<Rightarrow> pystr \<Rightarrow> csv_row list
     \<Rightarrow> database \<times> row_error list \<times> (error + nat)" where
  "import_deadlines rt d user_email rows =
     (case filter (\<lambda>u. email u = user_email) (users d) of
        [] \<Rightarrow> (d, [], Inl (CommandError (str ''No user found with email '' @ user_email)))
      | [u] \<Rightarrow>
          (case read_rows rt 2 rows [] [] of
             (errors, events_to_create) \<Rightarrow>
               if errors \<noteq> []
               then (d, errors, Inl (CommandError (str ''Aborting import due to errors.'')))
               else (case create_events d u events_to_create 0 of
                       (d', res) \<Rightarrow> (d', [], res)))
      | _ \<Rightarrow> (d, [], Inl MultipleObjectsReturned))"

section \<open>Vocabulary of the properties\<close>

text \<open>
  Integrity of the tables as the database keeps it: the primary key of the reminders is
  unique, and the foreign keys of every reminder resolve (its event exists, and the
  owner of that event).
\<close>

definition wf_db :: "database \<Rightarrow> bool" where
  "wf_db d =
     (distinct (map rid (reminders d)) \<and>
      list_all (\<lambda>r. select_related d r \<noteq> None) (reminders d))"

text \<open>A candidate whose owner has an address; the ids of the reminders a list of
  candidates gets marked; a table with the rows of these ids marked.\<close>

definition emailable :: "candidate \<Rightarrow> bool" where
  "emailable c = (email (snd (snd c)) \<noteq> [])"

definition sent_ids :: "candidate list \<Rightarrow> nat set" where
  "sent_ids cs = (\<lambda>c. rid (fst c)) ` set (filter emailable cs)"

definition mark_sent :: "nat set \<Rightarrow> timestamp \<Rightarrow> reminder list \<Rightarrow> reminder list" where
  "mark_sent S now rs =
     map (\<lambda>x. if rid x \<in> S then x\<lparr>is_sent := True, sent_at := Some now\<rparr> else x) rs"

text \<open>The transport accepts, one after the other, the mails of the emailable candidates
  of a list, starting from the mails delivered so far.\<close>

fun accepts_all :: "env \<Rightarrow> database \<Rightarrow> mail list \<Rightarrow> candidate list \<Rightarrow> bool" where
  "accepts_all ev d ob [] = True"
| "accepts_all ev d ob (c # cs) =
     (if emailable c
      then transport ev ob (compose_mail ev d c) \<and> accepts_all ev d (ob @ [compose_mail ev d c]) cs
      else accepts_all ev d ob cs)"

subsection \<open>Sample data\<close>

definition demo_env :: env where
  "demo_env = \<lparr>strftime_due = (\<lambda>t. str ''2024-01-10 09:00''),
               isoformat_due = (\<lambda>t. str ''2024-01-10T09:00:00+02:00''),
               DEFAULT_FROM_EMAIL = str ''deadlines@example.com'',
               transport = (\<lambda>ob m. True)\<rparr>"

definition ann :: user where
  "ann = \<lparr>uid = 1, username = str ''ann'', email = str ''ann@example.com''\<rparr>"

definition bob :: user where
  "bob = \<lparr>uid = 2, username = str ''bob'', email = []\<rparr>"

definition ev_ann :: event where
  "ev_ann = \<lparr>eid = 1, user_id = 1, title = str ''Tax return'', description = [],
             due_at = 1000, status = STATUS_OPEN\<rparr>"

definition ev_bob :: event where
  "ev_bob = \<lparr>eid = 2, user_id = 2, title = str ''Passport'', description = str ''Renew it'',
             due_at = 1000, status = STATUS_OPEN\<rparr>"

definition pending :: "nat \<Rightarrow> nat \<Rightarrow> timestamp \<Rightarrow> reminder" where
  "pending i e t = \<lparr>rid = i, event_id = e, channel = CHANNEL_EMAIL, send_at = t,
                    is_sent = False, sent_at = None\<rparr>"

text \<open>Five reminders: one of ann due at 100, one of bob (no address) due at 50, one of
  ann due at 500, one of ann delivered at 20, and one of ann due at 700.\<close>

definition demo_db :: database where
  "demo_db =
     \<lparr>users = [ann, bob], events = [ev_ann, ev_bob], labels = [], event_labels = [],
      reminders = [pending 1 1 100, pending 2 2 50, pending 3 1 500,
                   (pending 4 1 10)\<lparr>is_sent := True, sent_at := Some 20\<rparr>,
                   pending 5 1 700]\<rparr>"

text \<open>A transport that delivers one mail and then fails.\<close>

definition flaky_env :: env where
  "flaky_env = demo_env\<lparr>transport := (\<lambda>ob m. length ob < 1)\<rparr>"

text \<open>The due candidates that have an address, before the cap of the query.\<close>

definition sendable_due :: "timestamp \<Rightarrow> database \<Rightarrow> candidate list" where
  "sendable_due now d =
     filter emailable
       (filter (\<lambda>c. is_due now (fst c)) (List.map_filter (select_related d) (reminders d)))"

subsection \<open>A backlog\<close>

text \<open>
  A table of \<open>n\<close> reminders with the keys \<open>0..<n\<close>, all due at time 0: the first
  \<open>k\<close> belong to bob, who has no address, the others to ann; those from \<open>k\<close> up to
  \<open>m\<close> are already sent.
\<close>

definition backlog_row :: "nat \<Rightarrow> nat \<Rightarrow> nat \<Rightarrow> reminder" where
  "backlog_row k m i =
     (if i < k then pending i 2 0
      else if i < m then (pending i 1 0)\<lparr>is_sent := True, sent_at := Some 0\<rparr>
      else pending i 1 0)"

definition backlog_cand :: "nat \<Rightarrow> nat \<Rightarrow> nat \<Rightarrow> candidate" where
  "backlog_cand k m i =
     (backlog_row k m i, if i < k then ev_bob else ev_ann, if i < k then bob else ann)"

definition backlog_db :: "nat \<Rightarrow> nat \<Rightarrow> nat \<Rightarrow> database" where
  "backlog_db k m n =
     \<lparr>users = [ann, bob], events = [ev_ann, ev_bob], labels = [], event_labels = [],
      reminders = map (backlog_row k m) [0..<n]\<rparr>"

subsection \<open>Sample data of the import\<close>

text \<open>
  A database with the two users and nothing else; a zone two hours ahead of UTC all
  year (as Africa/Windhoek since 2017); a runtime whose date parser reads one text, as
  09:00 of 2024-01-10 in that zone, whose digits besides the ASCII ones are the
  Arabic-Indic ones (U+0660 to U+0669), and whose limit on digits is the default; a row
  with a title, a due time and offsets.
\<close>

definition fresh_db :: database where
  "fresh_db = \<lparr>users = [ann, bob], events = [], labels = [], event_labels = [], reminders = []\<rparr>"

definition demo_zone :: "timestamp \<Rightarrow> bool \<Rightarrow> int" where
  "demo_zone w f = 7200000000"

definition tax_due :: aware where
  "tax_due = \<lparr>wall = mk_datetime 2024 1 10 9 0, dt_fold = False, utcoffset = demo_zone\<rparr>"

definition demo_parse :: "pystr \<Rightarrow> aware option" where
  "demo_parse s = (if s = str ''2024-01-10 09:00'' then Some tax_due else None)"

definition demo_rt :: runtime where
  "demo_rt =
     \<lparr>parser_parse = demo_parse,
      unicode_decimal = (\<lambda>c. if 0x660 \<le> c \<and> c \<le> 0x669 then Some (c - 0x660) else None),
      int_max_str_digits = 4300\<rparr>"

definition demo_row :: "pystr \<Rightarrow> pystr \<Rightarrow> pystr \<Rightarrow> csv_row" where
  "demo_row ttl due offs =
     [str ''title'' \<mapsto> ttl, str ''due_at'' \<mapsto> due, str ''reminders_minutes_before'' \<mapsto> offs]"

subsection \<open>The operations on the reminders\<close>

text \<open>The sent flag of every reminder says whether its sent timestamp is set.\<close>

definition sent_consistent :: "database \<Rightarrow> bool" where
  "sent_consistent d = list_all (\<lambda>r. is_sent r = (sent_at r \<noteq> None)) (reminders d)"

text \<open>
  The two operations that write reminders, the import command and the dispatch task,
  run one after the other on the database and the outbox; an operation that ends with
  an error leaves what it had written.
\<close>

datatype operation =
  Import runtime pystr "csv_row list"
  | Dispatch env timestamp

fun engine_step :: "operation \<Rightarrow> database \<times> mail list \<Rightarrow> database \<times> mail list" where
  "engine_step (Import rt user_email rows) (d, ob) =
     (fst (import_deadlines rt d user_email rows), ob)"
| "engine_step (Dispatch ev now) (d, ob) =
     (fst (send_due_reminders ev now d ob), fst (snd (send_due_reminders ev now d ob)))"

definition engine_run :: "operation list \<Rightarrow> database \<times> mail list \<Rightarrow> database \<times> mail list" where
  "engine_run ops s = fold engine_step ops s"

text \<open>
  A row is kept: its key, event, channel and send time are what they were, and a sent
  flag that was set is still set. A database extends another: it has its rows, kept, at
  their places.
\<close>

definition kept :: "reminder \<Rightarrow> reminder \<Rightarrow> bool" where
  "kept r r' =
     (rid r' = rid r \<and> event_id r' = event_id r \<and> channel r' = channel r
      \<and> send_at r' = send_at r \<and> (is_sent r \<longrightarrow> is_sent r'))"

definition extends :: "database \<Rightarrow> database \<Rightarrow> bool" where
  "extends d d' =
     (length (reminders d) \<le> length (reminders d')
      \<and> (\<forall>i < length (reminders d). kept (reminders d ! i) (reminders d' ! i)))"

section \<open>The dispatch loop\<close>

lemma str_Nil_iff [simp]: "(str s = []) = (s = [])"
  by (simp add: str_def)

lemma str_inject [simp]: "(str a = str b) = (a = b)"
proof -
  have "inj (of_char :: char \<Rightarrow> nat)" by (rule injI) simp
  then show ?thesis unfolding str_def by (rule inj_map_eq_map)
qed

lemma mark_sent_insert:
  "mark_sent S now (reminders (save_sent d r now)) = mark_sent (insert (rid r) S) now (reminders d)"
  by (simp add: mark_sent_def save_sent_def)

lemma compose_mail_save_sent: "compose_mail ev (save_sent d r now) c = compose_mail ev d c"
  by (simp add: compose_mail_def save_sent_def event_labels_all_def)

text \<open>What a run of the loop leaves: it went through a prefix \<open>done\<close> of the batch, the
  rows of the emailable candidates of \<open>done\<close> are marked, their mails are delivered, and
  the loop either reached the end or stopped at a candidate the transport refused.\<close>

lemma dispatch_loop_char:
  "dispatch_loop ev now batch d ob n = (d', ob', res) \<Longrightarrow>
   \<exists>done rest. batch = done @ rest \<and>
     d' = d\<lparr>reminders := mark_sent (sent_ids done) now (reminders d)\<rparr> \<and>
     ob' = ob @ map (compose_mail ev d) (filter emailable done) \<and>
     (case res of
        Inr k \<Rightarrow> rest = [] \<and> k = n + length (filter emailable done)
      | Inl e \<Rightarrow> e = TransportError \<and> rest \<noteq> [] \<and> emailable (hd rest) \<and>
                 \<not> transport ev ob' (compose_mail ev d (hd rest)))"
proof (induction batch arbitrary: d ob n)
  case Nil
  then show ?case by (auto simp: sent_ids_def mark_sent_def)
next
  case (Cons c cs)
  show ?case
  proof (cases "emailable c")
    case False
    with Cons.prems have "dispatch_loop ev now cs d ob n = (d', ob', res)"
      by (simp add: emailable_def)
    from Cons.IH[OF this] obtain dn rest where
      h: "cs = dn @ rest" "d' = d\<lparr>reminders := mark_sent (sent_ids dn) now (reminders d)\<rparr>"
         "ob' = ob @ map (compose_mail ev d) (filter emailable dn)"
         "(case res of
             Inr k \<Rightarrow> rest = [] \<and> k = n + length (filter emailable dn)
           | Inl e \<Rightarrow> e = TransportError \<and> rest \<noteq> [] \<and> emailable (hd rest) \<and>
                 \<not> transport ev ob' (compose_mail ev d (hd rest)))"
      by blast
    have "sent_ids (c # dn) = sent_ids dn" using False by (simp add: sent_ids_def)
    with h False show ?thesis
      by - (rule exI[of _ "c # dn"], rule exI[of _ rest], auto split: sum.splits)
  next
    case True
    show ?thesis
    proof (cases "transport ev ob (compose_mail ev d c)")
      case False
      with True Cons.prems have "d' = d" "ob' = ob" "res = Inl TransportError"
        by (simp_all add: emailable_def Let_def)
      with True False show ?thesis
        by - (rule exI[of _ "[]"], rule exI[of _ "c # cs"], simp add: sent_ids_def mark_sent_def)
    next
      case ok: True
      let ?d1 = "save_sent d (fst c) now"
      let ?m = "compose_mail ev d c"
      from True ok Cons.prems
      have "dispatch_loop ev now cs ?d1 (ob @ [?m]) (n + 1) = (d', ob', res)"
        by (simp add: emailable_def Let_def)
      from Cons.IH[OF this] obtain dn rest where
        h: "cs = dn @ rest"
           "d' = ?d1\<lparr>reminders := mark_sent (sent_ids dn) now (reminders ?d1)\<rparr>"
           "ob' = (ob @ [?m]) @ map (compose_mail ev ?d1) (filter emailable dn)"
           "(case res of
               Inr k \<Rightarrow> rest = [] \<and> k = (n + 1) + length (filter emailable dn)
             | Inl e \<Rightarrow> e = TransportError \<and> rest \<noteq> [] \<and> emailable (hd rest) \<and>
                 \<not> transport ev ob' (compose_mail ev ?d1 (hd rest)))"
        by blast
      have s: "sent_ids (c # dn) = insert (rid (fst c)) (sent_ids dn)"
        using True by (simp add: sent_ids_def)
      have d: "d' = d\<lparr>reminders := mark_sent (sent_ids (c # dn)) now (reminders d)\<rparr>"
        using h(2) by (simp add: s mark_sent_insert) (simp add: save_sent_def)
      have cm: "compose_mail ev ?d1 = compose_mail ev d"
        by (rule ext) (simp add: compose_mail_save_sent)
      show ?thesis
        using h True d unfolding cm
        by - (rule exI[of _ "c # dn"], rule exI[of _ rest], auto split: sum.splits)
    qed
  qed
qed

lemma mark_sent_keeps:
  "r \<in> set rs \<Longrightarrow> rid r \<notin> S \<Longrightarrow> r \<in> set (mark_sent S now rs)"
  by (force simp: mark_sent_def)

lemma mark_sent_marks:
  "r \<in> set rs \<Longrightarrow> rid r \<in> S \<Longrightarrow> r\<lparr>is_sent := True, sent_at := Some now\<rparr> \<in> set (mark_sent S now rs)"
  by (force simp: mark_sent_def)

lemma sent_ids_append_subset: "sent_ids dn \<subseteq> (\<lambda>c. rid (fst c)) ` set (dn @ rest)"
  by (auto simp: sent_ids_def)

section \<open>The query\<close>

lemma select_related_fst: "select_related d r = Some c \<Longrightarrow> fst c = r"
  by (auto simp: select_related_def split: option.splits)

lemma map_filter_select_related:
  "list_all (\<lambda>r. select_related d r \<noteq> None) rs \<Longrightarrow>
   map fst (List.map_filter (select_related d) rs) = rs"
  by (induction rs) (auto simp: List.map_filter_simps dest: select_related_fst split: option.splits)

lemma insort_key_map_fst:
  "map fst (insort_key (\<lambda>c. f (fst c)) x xs) = insort_key f (fst x) (map fst xs)"
  by (induction xs) auto

lemma sort_key_map_fst: "map fst (sort_key (\<lambda>c. f (fst c)) xs) = sort_key f (map fst xs)"
  by (induction xs) (auto simp: insort_key_map_fst)

lemma filter_map_fst: "map fst (filter (\<lambda>c. P (fst c)) xs) = filter P (map fst xs)"
  by (induction xs) auto

lemma due_reminders_rows:
  "wf_db d \<Longrightarrow>
   map fst (due_reminders now d) = take 200 (sort_key send_at (filter (is_due now) (reminders d)))"
  by (simp add: due_reminders_def wf_db_def take_map [symmetric] sort_key_map_fst filter_map_fst
      map_filter_select_related)

lemma sorted_take_le_rest:
  assumes "sorted (map f xs)" "x \<in> set xs" "x \<notin> set (take n xs)" "b \<in> set (take n xs)"
  shows "f b \<le> f x"
proof -
  have "xs = take n xs @ drop n xs" by simp
  with assms(2,3) have "x \<in> set (drop n xs)"
    by (metis Un_iff set_append)
  moreover have "sorted (map f (take n xs) @ map f (drop n xs))"
    using assms(1) by (metis append_take_drop_id map_append)
  ultimately show ?thesis using assms(4) by (auto simp: sorted_append)
qed

lemma due_rows_in_table:
  "wf_db d \<Longrightarrow> c \<in> set (due_reminders now d) \<Longrightarrow> fst c \<in> set (reminders d) \<and> is_due now (fst c)"
proof -
  assume wf: "wf_db d" and c: "c \<in> set (due_reminders now d)"
  then have "fst c \<in> set (map fst (due_reminders now d))" by simp
  then have "fst c \<in> set (sort_key send_at (filter (is_due now) (reminders d)))"
    unfolding due_reminders_rows [OF wf] by (rule in_set_takeD)
  then show ?thesis by simp
qed

lemma due_rows_same_id:
  assumes wf: "wf_db d" and c: "c \<in> set (due_reminders now d)"
    and r: "r \<in> set (reminders d)" and eq: "rid (fst c) = rid r"
  shows "fst c = r"
proof -
  have "fst c \<in> set (reminders d)" using due_rows_in_table [OF wf c] by simp
  with r eq wf show ?thesis
    by (auto simp: wf_db_def distinct_map dest: inj_onD)
qed

text \<open>A row outside the batch is not touched by the invocation.\<close>

lemma outside_batch_unchanged:
  assumes wf: "wf_db d"
    and run: "send_due_reminders ev now d ob = (d', ob', res)"
    and r: "r \<in> set (reminders d)" "r \<notin> set (map fst (due_reminders now d))"
  shows "r \<in> set (reminders d')"
proof -
  from run obtain dn rest where
    b: "due_reminders now d = dn @ rest"
    and d': "d' = d\<lparr>reminders := mark_sent (sent_ids dn) now (reminders d)\<rparr>"
    unfolding send_due_reminders_def by (blast dest: dispatch_loop_char)
  have "rid r \<notin> sent_ids dn"
  proof
    assume "rid r \<in> sent_ids dn"
    then have "rid r \<in> (\<lambda>c. rid (fst c)) ` set (due_reminders now d)"
      using sent_ids_append_subset [of dn rest] b by auto
    then obtain c where c: "c \<in> set (due_reminders now d)" "rid (fst c) = rid r"
      by (metis (mono_tags, lifting) imageE)
    then have "fst c = r" using due_rows_same_id [OF wf c(1) r(1)] by simp
    with c(1) r(2) show False by force
  qed
  with r(1) show ?thesis by (simp add: d' mark_sent_keeps)
qed

lemma scan_parts:
  assumes wf: "wf_db d"
  shows "map fst (due_reminders now d)
           = take 200 (sort_key send_at (filter (is_due now) (reminders d)))"
    and "\<forall>r \<in> set (map fst (due_reminders now d)).
           r \<in> set (reminders d) \<and> \<not> is_sent r \<and> send_at r \<le> now"
    and "sorted (map send_at (map fst (due_reminders now d)))"
    and "length (due_reminders now d) = min 200 (length (filter (is_due now) (reminders d)))"
    and "\<forall>r \<in> set (reminders d). is_due now r \<longrightarrow> r \<notin> set (map fst (due_reminders now d)) \<longrightarrow>
           (\<forall>b \<in> set (map fst (due_reminders now d)). send_at b \<le> send_at r)"
    and "length (filter (is_due now) (reminders d)) \<le> 200 \<longrightarrow>
           mset (map fst (due_reminders now d)) = mset (filter (is_due now) (reminders d))"
proof -
  let ?due = "filter (is_due now) (reminders d)"
  let ?srt = "sort_key send_at ?due"
  show rows: "map fst (due_reminders now d) = take 200 ?srt"
    by (rule due_reminders_rows [OF wf])
  show "\<forall>r \<in> set (map fst (due_reminders now d)).
           r \<in> set (reminders d) \<and> \<not> is_sent r \<and> send_at r \<le> now"
  proof
    fix r assume "r \<in> set (map fst (due_reminders now d))"
    then have "r \<in> set ?srt" unfolding rows by (rule in_set_takeD)
    then show "r \<in> set (reminders d) \<and> \<not> is_sent r \<and> send_at r \<le> now"
      by (simp add: is_due_def)
  qed
  show "sorted (map send_at (map fst (due_reminders now d)))"
    unfolding rows by (simp add: take_map [symmetric] del: take_map)
  have "length (map fst (due_reminders now d)) = min 200 (length ?due)"
    unfolding rows by simp
  then show "length (due_reminders now d) = min 200 (length ?due)" by simp
  show "\<forall>r \<in> set (reminders d). is_due now r \<longrightarrow> r \<notin> set (map fst (due_reminders now d)) \<longrightarrow>
           (\<forall>b \<in> set (map fst (due_reminders now d)). send_at b \<le> send_at r)"
    unfolding rows
  proof (intro ballI impI)
    fix r b
    assume "r \<in> set (reminders d)" "is_due now r" "r \<notin> set (take 200 ?srt)"
      "b \<in> set (take 200 ?srt)"
    moreover from this have "r \<in> set ?srt" by simp
    moreover have "sorted (map send_at ?srt)" by simp
    ultimately show "send_at b \<le> send_at r"
      using sorted_take_le_rest [of send_at ?srt r 200 b] by blast
  qed
  show "length ?due \<le> 200 \<longrightarrow> mset (map fst (due_reminders now d)) = mset ?due"
    unfolding rows by simp
qed

subsection \<open>The sample data\<close>

lemma demo_joined:
  "List.map_filter (select_related demo_db) (reminders demo_db) =
     [(pending 1 1 100, ev_ann, ann), (pending 2 2 50, ev_bob, bob), (pending 3 1 500, ev_ann, ann),
      ((pending 4 1 10)\<lparr>is_sent := True, sent_at := Some 20\<rparr>, ev_ann, ann),
      (pending 5 1 700, ev_ann, ann)]"
  by (simp add: List.map_filter_simps select_related_def get_event_def get_user_def demo_db_def
      pending_def ev_ann_def ev_bob_def ann_def bob_def)

lemma demo_wf: "wf_db demo_db"
  by (simp add: wf_db_def select_related_def get_event_def get_user_def demo_db_def
      pending_def ev_ann_def ev_bob_def ann_def bob_def)

lemma demo_due:
  "due_reminders 200 demo_db = [(pending 2 2 50, ev_bob, bob), (pending 1 1 100, ev_ann, ann)]"
  unfolding due_reminders_def demo_joined
  by (simp add: is_due_def pending_def)

lemma demo_run:
  "send_due_reminders demo_env 200 demo_db [] =
     (demo_db\<lparr>reminders :=
         [(pending 1 1 100)\<lparr>is_sent := True, sent_at := Some 200\<rparr>, pending 2 2 50,
          pending 3 1 500, (pending 4 1 10)\<lparr>is_sent := True, sent_at := Some 20\<rparr>,
          pending 5 1 700]\<rparr>,
      [compose_mail demo_env demo_db (pending 1 1 100, ev_ann, ann)], Inr 1)"
  unfolding send_due_reminders_def demo_due
  by (simp add: save_sent_def ann_def bob_def demo_env_def Let_def)
     (simp add: demo_db_def pending_def)

lemma demo_due_60: "due_reminders 60 demo_db = [(pending 2 2 50, ev_bob, bob)]"
  unfolding due_reminders_def demo_joined
  by (simp add: is_due_def pending_def)

lemma demo_run_60: "send_due_reminders demo_env 60 demo_db [] = (demo_db, [], Inr 0)"
  unfolding send_due_reminders_def demo_due_60
  by (simp add: bob_def)

lemma demo_due_1000:
  "due_reminders 1000 demo_db =
     [(pending 2 2 50, ev_bob, bob), (pending 1 1 100, ev_ann, ann)]
     @ (pending 3 1 500, ev_ann, ann) # [(pending 5 1 700, ev_ann, ann)]"
  unfolding due_reminders_def demo_joined
  by (simp add: is_due_def pending_def)

section \<open>The loop when the transport accepts\<close>

lemma accepts_all_save_sent:
  "accepts_all ev (save_sent d r now) ob cs = accepts_all ev d ob cs"
  by (induction cs arbitrary: ob) (simp_all add: compose_mail_save_sent)

lemma mark_sent_empty: "mark_sent {} now rs = rs"
  by (simp add: mark_sent_def)

lemma mark_sent_none: "d\<lparr>reminders := mark_sent {} now (reminders d)\<rparr> = d"
  by (simp add: mark_sent_empty)

lemma save_sent_then_mark:
  "(save_sent d r now)\<lparr>reminders := mark_sent S now (reminders (save_sent d r now))\<rparr>
     = d\<lparr>reminders := mark_sent (insert (rid r) S) now (reminders d)\<rparr>"
  by (simp add: mark_sent_insert) (simp add: save_sent_def)

lemma dispatch_loop_accepts:
  "accepts_all ev d ob cs \<Longrightarrow>
   dispatch_loop ev now cs d ob n =
     (d\<lparr>reminders := mark_sent (sent_ids cs) now (reminders d)\<rparr>,
      ob @ map (compose_mail ev d) (filter emailable cs),
      Inr (n + length (filter emailable cs)))"
proof (induction cs arbitrary: d ob n)
  case Nil
  then show ?case by (simp add: sent_ids_def mark_sent_none)
next
  case (Cons c cs)
  show ?case
  proof (cases "emailable c")
    case False
    then have "sent_ids (c # cs) = sent_ids cs" by (simp add: sent_ids_def)
    with False Cons show ?thesis by (simp add: emailable_def)
  next
    case True
    let ?d1 = "save_sent d (fst c) now"
    let ?m = "compose_mail ev d c"
    from True Cons.prems have ok: "transport ev ob ?m" and rest: "accepts_all ev ?d1 (ob @ [?m]) cs"
      by (simp_all add: accepts_all_save_sent)
    have s: "sent_ids (c # cs) = insert (rid (fst c)) (sent_ids cs)"
      using True by (simp add: sent_ids_def)
    have cm: "compose_mail ev ?d1 = compose_mail ev d"
      by (rule ext) (simp add: compose_mail_save_sent)
    have "dispatch_loop ev now (c # cs) d ob n = dispatch_loop ev now cs ?d1 (ob @ [?m]) (n + 1)"
      using True ok by (simp add: emailable_def Let_def)
    also have "\<dots> = (?d1\<lparr>reminders := mark_sent (sent_ids cs) now (reminders ?d1)\<rparr>,
        (ob @ [?m]) @ map (compose_mail ev ?d1) (filter emailable cs),
        Inr ((n + 1) + length (filter emailable cs)))"
      by (rule Cons.IH [OF rest])
    finally show ?thesis
      using True by (simp add: s cm save_sent_then_mark)
  qed
qed

lemma dispatch_loop_append:
  "dispatch_loop ev now (xs @ ys) d ob n =
     (case dispatch_loop ev now xs d ob n of
        (d1, ob1, Inr k) \<Rightarrow> dispatch_loop ev now ys d1 ob1 k
      | (d1, ob1, Inl e) \<Rightarrow> (d1, ob1, Inl e))"
  by (induction xs arbitrary: d ob n) (simp_all add: Let_def)

lemma dispatch_loop_filter:
  "dispatch_loop ev now (filter emailable cs) d ob n = dispatch_loop ev now cs d ob n"
  by (induction cs arbitrary: d ob n) (simp_all add: Let_def emailable_def)

section \<open>Candidates and rows\<close>

lemma in_map_filterD:
  "y \<in> set (List.map_filter f xs) \<Longrightarrow> \<exists>x \<in> set xs. f x = Some y"
  by (induction xs) (auto split: option.splits)

lemma due_rows_joined:
  "c \<in> set (due_reminders now d) \<Longrightarrow> select_related d (fst c) = Some c"
proof -
  assume "c \<in> set (due_reminders now d)"
  then have "c \<in> set (sort_key (\<lambda>c. send_at (fst c))
       (filter (\<lambda>c. is_due now (fst c)) (List.map_filter (select_related d) (reminders d))))"
    unfolding due_reminders_def by (rule in_set_takeD)
  then have "c \<in> set (List.map_filter (select_related d) (reminders d))"
    by simp
  then obtain r where r: "select_related d r = Some c"
    by (blast dest: in_map_filterD)
  then have "fst c = r" by (rule select_related_fst)
  with r show ?thesis by simp
qed

lemma compose_mail_recipient: "recipient_list (compose_mail ev d c) = [email (snd (snd c))]"
  by (cases c) (simp add: compose_mail_def Let_def)

lemma due_same_id_same_candidate:
  assumes wf: "wf_db d" and x: "x \<in> set (due_reminders now d)" and c: "c \<in> set (due_reminders now d)"
    and eq: "rid (fst x) = rid (fst c)"
  shows "x = c"
proof -
  have "fst c \<in> set (reminders d)" using due_rows_in_table [OF wf c] by (rule conjunct1)
  then have fx: "fst x = fst c" by (rule due_rows_same_id [OF wf x _ eq])
  have "Some x = select_related d (fst x)" by (rule due_rows_joined [OF x, symmetric])
  also have "\<dots> = select_related d (fst c)" by (simp only: fx)
  also have "\<dots> = Some c" by (rule due_rows_joined [OF c])
  finally show "x = c" by (simp only: option.inject)
qed

lemma mark_sent_row:
  "r' \<in> set (mark_sent S now rs) \<Longrightarrow>
   \<exists>r \<in> set rs. r' = (if rid r \<in> S then r\<lparr>is_sent := True, sent_at := Some now\<rparr> else r)"
  unfolding mark_sent_def by (simp only: set_map image_iff)

section \<open>Further facts about rows and mails\<close>

lemma sent_ids_mem:
  "i \<in> sent_ids cs \<Longrightarrow> \<exists>x \<in> set cs. emailable x \<and> rid (fst x) = i"
  unfolding sent_ids_def by auto

lemma mark_sent_rid: "map rid (mark_sent S now rs) = map rid rs"
  unfolding mark_sent_def by (induction rs) simp_all

lemma compose_mail_reminders_update:
  "compose_mail ev (d\<lparr>reminders := rs\<rparr>) c = compose_mail ev d c"
  by (simp add: compose_mail_def event_labels_all_def)

lemma due_ids_distinct:
  assumes wf: "wf_db d"
  shows "distinct (map (\<lambda>c. rid (fst c)) (due_reminders now d))"
proof -
  let ?L = "take 200 (sort_key send_at (filter (is_due now) (reminders d)))"
  from wf have dist: "distinct (reminders d)" and inj: "inj_on rid (set (reminders d))"
    by (simp_all add: wf_db_def distinct_map)
  have "set ?L \<subseteq> set (reminders d)"
    by (auto dest: in_set_takeD)
  with inj have "inj_on rid (set ?L)" by (rule inj_on_subset)
  moreover have "distinct ?L" using dist by simp
  ultimately have "distinct (map rid ?L)" by (simp add: distinct_map)
  then have "distinct (map rid (map fst (due_reminders now d)))"
    by (simp only: due_reminders_rows [OF wf])
  then show ?thesis by (simp add: comp_def)
qed

lemma accepts_all_append:
  "accepts_all ev d ob (xs @ ys) =
     (accepts_all ev d ob xs
      \<and> accepts_all ev d (ob @ map (compose_mail ev d) (filter emailable xs)) ys)"
  by (induction xs arbitrary: ob) simp_all

text \<open>A run of the loop went through a prefix of the batch whose mails the transport
  accepted, and either reached the end or stopped at a candidate the transport refused.\<close>

lemma dispatch_loop_splits:
  "dispatch_loop ev now batch d ob n = (d', ob', res) \<Longrightarrow>
   \<exists>done rest. batch = done @ rest \<and> accepts_all ev d ob done \<and>
     (case res of
        Inr k \<Rightarrow> rest = []
      | Inl e \<Rightarrow> e = TransportError \<and> rest \<noteq> [] \<and> emailable (hd rest) \<and>
                 \<not> transport ev (ob @ map (compose_mail ev d) (filter emailable done))
                      (compose_mail ev d (hd rest)))"
proof (induction batch arbitrary: d ob n)
  case Nil
  then have res: "res = Inr n" by simp
  have "[] = [] @ ([] :: candidate list) \<and> accepts_all ev d ob [] \<and>
     (case res of
        Inr k \<Rightarrow> ([] :: candidate list) = []
      | Inl e \<Rightarrow> e = TransportError \<and> ([] :: candidate list) \<noteq> [] \<and> emailable (hd []) \<and>
                 \<not> transport ev (ob @ map (compose_mail ev d) (filter emailable []))
                      (compose_mail ev d (hd [])))"
    unfolding res by simp
  then show ?case by (intro exI)
next
  case (Cons c cs)
  show ?case
  proof (cases "emailable c")
    case False
    with Cons.prems have "dispatch_loop ev now cs d ob n = (d', ob', res)"
      by (simp add: emailable_def)
    from Cons.IH [OF this] obtain dn rest where
      h1: "cs = dn @ rest" and h2: "accepts_all ev d ob dn"
      and h3: "(case res of
             Inr k \<Rightarrow> rest = []
           | Inl e \<Rightarrow> e = TransportError \<and> rest \<noteq> [] \<and> emailable (hd rest) \<and>
                 \<not> transport ev (ob @ map (compose_mail ev d) (filter emailable dn))
                      (compose_mail ev d (hd rest)))"
      by blast
    have f: "filter emailable (c # dn) = filter emailable dn" using False by simp
    have a: "accepts_all ev d ob (c # dn)" using False h2 by simp
    have "c # cs = (c # dn) @ rest \<and> accepts_all ev d ob (c # dn) \<and>
       (case res of
             Inr k \<Rightarrow> rest = []
           | Inl e \<Rightarrow> e = TransportError \<and> rest \<noteq> [] \<and> emailable (hd rest) \<and>
                 \<not> transport ev (ob @ map (compose_mail ev d) (filter emailable (c # dn)))
                      (compose_mail ev d (hd rest)))"
      unfolding f using h1 a h3 by simp
    then show ?thesis by (intro exI)
  next
    case True
    show ?thesis
    proof (cases "transport ev ob (compose_mail ev d c)")
      case False
      with True Cons.prems have res: "res = Inl TransportError"
        by (simp add: emailable_def Let_def)
      have "c # cs = [] @ (c # cs) \<and> accepts_all ev d ob [] \<and>
         (case res of
             Inr k \<Rightarrow> c # cs = []
           | Inl e \<Rightarrow> e = TransportError \<and> c # cs \<noteq> [] \<and> emailable (hd (c # cs)) \<and>
                 \<not> transport ev (ob @ map (compose_mail ev d) (filter emailable []))
                      (compose_mail ev d (hd (c # cs))))"
        unfolding res using True False by simp
      then show ?thesis by (intro exI)
    next
      case ok: True
      let ?d1 = "save_sent d (fst c) now"
      let ?m = "compose_mail ev d c"
      from True ok Cons.prems
      have "dispatch_loop ev now cs ?d1 (ob @ [?m]) (n + 1) = (d', ob', res)"
        by (simp add: emailable_def Let_def)
      from Cons.IH [OF this] obtain dn rest where
        h1: "cs = dn @ rest" and h2: "accepts_all ev ?d1 (ob @ [?m]) dn"
        and h3: "(case res of
               Inr k \<Rightarrow> rest = []
             | Inl e \<Rightarrow> e = TransportError \<and> rest \<noteq> [] \<and> emailable (hd rest) \<and>
                 \<not> transport ev ((ob @ [?m]) @ map (compose_mail ev ?d1) (filter emailable dn))
                      (compose_mail ev ?d1 (hd rest)))"
        by blast
      have cm: "compose_mail ev ?d1 = compose_mail ev d"
        by (rule ext) (simp add: compose_mail_save_sent)
      have ms: "(ob @ [?m]) @ map (compose_mail ev d) (filter emailable dn)
                  = ob @ map (compose_mail ev d) (filter emailable (c # dn))"
        using True by simp
      have a: "accepts_all ev d ob (c # dn)"
        using True ok h2 by (simp add: accepts_all_save_sent)
      have "c # cs = (c # dn) @ rest \<and> accepts_all ev d ob (c # dn) \<and>
         (case res of
               Inr k \<Rightarrow> rest = []
             | Inl e \<Rightarrow> e = TransportError \<and> rest \<noteq> [] \<and> emailable (hd rest) \<and>
                 \<not> transport ev (ob @ map (compose_mail ev d) (filter emailable (c # dn)))
                      (compose_mail ev d (hd rest)))"
        using h1 a h3 unfolding cm ms by simp
      then show ?thesis by (intro exI)
    qed
  qed
qed


lemma flaky_run:
  "send_due_reminders flaky_env 1000 demo_db [] =
     (demo_db\<lparr>reminders :=
         [(pending 1 1 100)\<lparr>is_sent := True, sent_at := Some 1000\<rparr>, pending 2 2 50,
          pending 3 1 500, (pending 4 1 10)\<lparr>is_sent := True, sent_at := Some 20\<rparr>,
          pending 5 1 700]\<rparr>,
      [compose_mail flaky_env demo_db (pending 1 1 100, ev_ann, ann)], Inl TransportError)"
  unfolding send_due_reminders_def demo_due_1000
  by (simp add: save_sent_def ann_def bob_def flaky_env_def demo_env_def Let_def
      compose_mail_reminders_update)
     (simp add: demo_db_def pending_def)

section \<open>The backlog, symbolically\<close>

lemma backlog_row_rid: "rid (backlog_row k m i) = i"
  by (simp add: backlog_row_def pending_def)

lemma backlog_row_due: "k \<le> m \<Longrightarrow> is_due 0 (backlog_row k m i) = (i < k \<or> m \<le> i)"
  by (auto simp: backlog_row_def pending_def is_due_def)

lemma backlog_row_send_at: "send_at (backlog_row k m i) = 0"
  by (simp add: backlog_row_def pending_def)

lemma backlog_select:
  "select_related (backlog_db k m n) (backlog_row k m i) = Some (backlog_cand k m i)"
  by (simp add: select_related_def get_event_def get_user_def backlog_db_def backlog_cand_def
      backlog_row_def pending_def ev_ann_def ev_bob_def ann_def bob_def)

lemma backlog_emailable: "emailable (backlog_cand k m i) = (k \<le> i)"
  by (auto simp: emailable_def backlog_cand_def ann_def bob_def)

lemma backlog_cand_fst: "fst (backlog_cand k m i) = backlog_row k m i"
  by (simp add: backlog_cand_def)

lemma backlog_joined:
  "List.map_filter (select_related (backlog_db k m n)) (map (backlog_row k m) xs)
     = map (backlog_cand k m) xs"
  by (induction xs) (simp_all add: backlog_select)

lemma upt_three: "k \<le> m \<Longrightarrow> m \<le> n \<Longrightarrow> [0..<n] = [0..<k] @ [k..<m] @ [m..<n]"
  by (metis le_add_diff_inverse le_trans upt_add_eq_append zero_le)

lemma upt_filter_outside:
  assumes "k \<le> m" "m \<le> n"
  shows "filter (\<lambda>i. i < k \<or> m \<le> i) [0..<n] = [0..<k] @ [m..<n]"
proof -
  have a: "filter (\<lambda>i. i < k \<or> m \<le> i) [0..<k] = [0..<k]" by (rule filter_True) simp
  have b: "filter (\<lambda>i. i < k \<or> m \<le> i) [k..<m] = []" by (rule filter_False) auto
  have c: "filter (\<lambda>i. i < k \<or> m \<le> i) [m..<n] = [m..<n]" by (rule filter_True) simp
  show ?thesis
    by (subst upt_three [OF assms]) (simp only: filter_append a b c append_Nil)
qed

lemma take_upt_min: "take j [m..<n] = [m..<min n (m + j)]"
proof (cases "m + j \<le> n")
  case True
  then show ?thesis by (simp add: min_def)
next
  case False
  then show ?thesis by (simp add: min_def)
qed

lemma backlog_due:
  assumes "k \<le> m" "m \<le> n" "k \<le> 200"
  shows "due_reminders 0 (backlog_db k m n)
           = map (backlog_cand k m) ([0..<k] @ [m..<min n (m + (200 - k))])"
proof -
  have j: "List.map_filter (select_related (backlog_db k m n)) (reminders (backlog_db k m n))
             = map (backlog_cand k m) [0..<n]"
    using backlog_joined [of k m n "[0..<n]"] by (simp add: backlog_db_def)
  have f: "filter (\<lambda>c. is_due 0 (fst c)) (map (backlog_cand k m) [0..<n])
             = map (backlog_cand k m) ([0..<k] @ [m..<n])"
    using assms(1)
    by (simp only: filter_map comp_def backlog_cand_fst backlog_row_due
        upt_filter_outside [OF assms(1,2)])
  have s: "sort_key (\<lambda>c. send_at (fst c)) (map (backlog_cand k m) ys) = map (backlog_cand k m) ys" for ys
    by (rule sort_key_id_if_sorted)
       (simp add: comp_def backlog_cand_fst backlog_row_send_at map_replicate_const)
  have t: "take 200 ([0..<k] @ [m..<n]) = [0..<k] @ [m..<min n (m + (200 - k))]"
    using assms(3) by (simp add: take_upt_min)
  show ?thesis
    unfolding due_reminders_def j f s
    by (simp only: take_map t)
qed

lemma accepts_all_demo: "accepts_all demo_env d ob cs"
  by (induction cs arbitrary: ob) (simp_all add: demo_env_def)

lemma backlog_wf: "wf_db (backlog_db k m n)"
proof -
  have "map rid (map (backlog_row k m) [0..<n]) = [0..<n]"
    by (simp add: comp_def backlog_row_rid)
  then have "distinct (map rid (reminders (backlog_db k m n)))"
    by (simp add: backlog_db_def)
  moreover have "list_all (\<lambda>r. select_related (backlog_db k m n) r \<noteq> None)
                   (map (backlog_row k m) [0..<n])"
    by (simp add: list_all_iff backlog_select backlog_cand_def)
  then have "list_all (\<lambda>r. select_related (backlog_db k m n) r \<noteq> None)
                   (reminders (backlog_db k m n))"
    by (simp add: backlog_db_def)
  ultimately show ?thesis by (simp only: wf_db_def)
qed

lemma backlog_emailable_filter:
  assumes "k \<le> m"
  shows "filter emailable (map (backlog_cand k m) ([0..<k] @ [m..<j]))
           = map (backlog_cand k m) [m..<j]"
proof -
  have a: "filter (\<lambda>i. k \<le> i) [0..<k] = []" by (rule filter_False) auto
  have b: "filter (\<lambda>i. k \<le> i) [m..<j] = [m..<j]" by (rule filter_True) (use assms in simp)
  show ?thesis
    by (simp only: filter_map comp_def backlog_emailable filter_append a b append_Nil)
qed

lemma backlog_sent_ids:
  assumes "k \<le> m"
  shows "sent_ids (map (backlog_cand k m) ([0..<k] @ [m..<j])) = {m..<j}"
  unfolding sent_ids_def backlog_emailable_filter [OF assms]
  by (simp add: image_image backlog_cand_fst backlog_row_rid)

lemma backlog_mark_row:
  assumes "k \<le> m" "m \<le> j"
  shows "(if rid (backlog_row k m i) \<in> {m..<j}
          then (backlog_row k m i)\<lparr>is_sent := True, sent_at := Some 0\<rparr>
          else backlog_row k m i) = backlog_row k j i"
proof (cases "m \<le> i \<and> i < j")
  case True
  with assms show ?thesis by (simp add: backlog_row_rid) (simp add: backlog_row_def)
next
  case False
  with assms show ?thesis by (simp add: backlog_row_rid) (auto simp: backlog_row_def)
qed

lemma backlog_mark:
  assumes "k \<le> m" "m \<le> j"
  shows "mark_sent {m..<j} 0 (map (backlog_row k m) xs) = map (backlog_row k j) xs"
  unfolding mark_sent_def by (simp only: map_map comp_def backlog_mark_row [OF assms])

lemma backlog_run:
  assumes "k \<le> m" "m \<le> n" "k \<le> 200"
  shows "send_due_reminders demo_env 0 (backlog_db k m n) ob =
           (backlog_db k (min n (m + (200 - k))) n,
            ob @ map (compose_mail demo_env (backlog_db k m n))
                   (map (backlog_cand k m) [m..<min n (m + (200 - k))]),
            Inr (min n (m + (200 - k)) - m))"
proof -
  let ?j = "min n (m + (200 - k))"
  have mj: "m \<le> ?j" using assms(2) by simp
  have db: "(backlog_db k m n)\<lparr>reminders := map (backlog_row k ?j) [0..<n]\<rparr> = backlog_db k ?j n"
    by (simp add: backlog_db_def)
  have rows: "reminders (backlog_db k m n) = map (backlog_row k m) [0..<n]"
    by (simp add: backlog_db_def)
  show ?thesis
    unfolding send_due_reminders_def backlog_due [OF assms]
      dispatch_loop_accepts [OF accepts_all_demo]
      backlog_sent_ids [OF assms(1)] backlog_emailable_filter [OF assms(1)]
      rows backlog_mark [OF assms(1) mj] db
    by simp
qed

lemma run_200_of_201:
  "send_due_reminders demo_env 0 (backlog_db 0 0 201) [] =
     (backlog_db 0 200 201,
      map (compose_mail demo_env (backlog_db 0 0 201)) (map (backlog_cand 0 0) [0..<200]),
      Inr 200)"
  using backlog_run [of 0 0 201 "[]"] by simp

lemma run_1_of_201:
  "snd (snd (send_due_reminders demo_env 0 (backlog_db 0 200 201) ob)) = Inr 1"
  using backlog_run [of 0 200 201 ob] by simp

lemma run_199_of_202:
  "fst (send_due_reminders demo_env 0 (backlog_db 1 1 202) []) = backlog_db 1 200 202"
  "snd (snd (send_due_reminders demo_env 0 (backlog_db 1 1 202) [])) = Inr 199"
  using backlog_run [of 1 1 202 "[]"] by simp_all

lemma backlog_due_rows:
  assumes "k \<le> m" "m \<le> n"
  shows "filter (is_due 0) (reminders (backlog_db k m n)) = map (backlog_row k m) ([0..<k] @ [m..<n])"
proof -
  have "filter (is_due 0) (map (backlog_row k m) [0..<n])
          = map (backlog_row k m) ([0..<k] @ [m..<n])"
    using assms(1)
    by (simp only: filter_map comp_def backlog_row_due upt_filter_outside [OF assms])
  then show ?thesis by (simp add: backlog_db_def)
qed

lemma backlog_sendable:
  assumes "k \<le> m" "m \<le> n"
  shows "sendable_due 0 (backlog_db k m n) = map (backlog_cand k m) [m..<n]"
proof -
  have j: "List.map_filter (select_related (backlog_db k m n)) (reminders (backlog_db k m n))
             = map (backlog_cand k m) [0..<n]"
    using backlog_joined [of k m n "[0..<n]"] by (simp add: backlog_db_def)
  have f: "filter (\<lambda>c. is_due 0 (fst c)) (map (backlog_cand k m) [0..<n])
             = map (backlog_cand k m) ([0..<k] @ [m..<n])"
    using assms(1)
    by (simp only: filter_map comp_def backlog_cand_fst backlog_row_due
        upt_filter_outside [OF assms])
  show ?thesis
    unfolding sendable_due_def j f by (rule backlog_emailable_filter [OF assms(1)])
qed

lemma loop_count:
  "dispatch_loop ev now cs d ob k = (d', ob', Inr n) \<Longrightarrow> n = k + length (filter emailable cs)"
  using dispatch_loop_char [of ev now cs d ob k d' ob' "Inr n"] by auto

lemma backlog_250:
  "length (filter (is_due 0) (reminders (backlog_db 0 0 250))) = 250"
  "fst (send_due_reminders demo_env 0 (backlog_db 0 0 250) []) = backlog_db 0 200 250"
  "length (filter (is_due 0) (reminders (backlog_db 0 200 250))) = 50"
  using backlog_run [of 0 0 250 "[]"]
  by (simp_all add: backlog_due_rows)

section \<open>A second invocation\<close>

lemma get_user_reminders_update: "get_user (d\<lparr>reminders := rs\<rparr>) = get_user d"
  by (rule ext) (simp add: get_user_def)

lemma get_event_reminders_update: "get_event (d\<lparr>reminders := rs\<rparr>) = get_event d"
  by (rule ext) (simp add: get_event_def)

lemma select_related_reminders_update:
  "select_related (d\<lparr>reminders := rs\<rparr>) r = select_related d r"
  by (simp add: select_related_def get_user_reminders_update get_event_reminders_update
      split: option.splits)

lemma dispatch_loop_none_emailable:
  "\<forall>c \<in> set cs. \<not> emailable c \<Longrightarrow> dispatch_loop ev now cs d ob n = (d, ob, Inr n)"
  by (induction cs) (simp_all add: emailable_def)

lemma due_candidate_in_table:
  assumes c: "c \<in> set (due_reminders now d)"
  shows "fst c \<in> set (reminders d)"
proof -
  from c have "c \<in> set (sort_key (\<lambda>c. send_at (fst c))
       (filter (\<lambda>c. is_due now (fst c)) (List.map_filter (select_related d) (reminders d))))"
    unfolding due_reminders_def by (rule in_set_takeD)
  then have "c \<in> set (List.map_filter (select_related d) (reminders d))" by simp
  then obtain r where r: "r \<in> set (reminders d)" "select_related d r = Some c"
    by (blast dest: in_map_filterD)
  from r(2) have "fst c = r" by (rule select_related_fst)
  with r(1) show ?thesis by simp
qed

lemma due_candidate_due:
  assumes c: "c \<in> set (due_reminders now d)"
  shows "is_due now (fst c)"
proof -
  from c have "c \<in> set (sort_key (\<lambda>c. send_at (fst c))
       (filter (\<lambda>c. is_due now (fst c)) (List.map_filter (select_related d) (reminders d))))"
    unfolding due_reminders_def by (rule in_set_takeD)
  then show ?thesis by simp
qed

lemma rerun_candidate_untouched:
  assumes d1: "d1 = d\<lparr>reminders := mark_sent S now (reminders d)\<rparr>"
    and c2: "c2 \<in> set (due_reminders now2 d1)"
  shows "fst c2 \<in> set (reminders d) \<and> rid (fst c2) \<notin> S \<and> is_due now2 (fst c2)
         \<and> select_related d (fst c2) = Some c2"
proof -
  have rows: "reminders d1 = mark_sent S now (reminders d)" by (simp add: d1)
  have in1: "fst c2 \<in> set (reminders d1)" using c2 by (rule due_candidate_in_table)
  have due2: "is_due now2 (fst c2)" using c2 by (rule due_candidate_due)
  have "select_related d1 (fst c2) = Some c2" using c2 by (rule due_rows_joined)
  then have j: "select_related d (fst c2) = Some c2"
    unfolding d1 by (simp only: select_related_reminders_update)
  from in1 obtain r0 where r0: "r0 \<in> set (reminders d)"
    and rr: "fst c2 = (if rid r0 \<in> S then r0\<lparr>is_sent := True, sent_at := Some now\<rparr> else r0)"
    unfolding rows by (blast dest: mark_sent_row)
  have notin: "rid r0 \<notin> S"
  proof
    assume "rid r0 \<in> S"
    with rr have "is_sent (fst c2)" by simp
    with due2 show False by (simp add: is_due_def)
  qed
  with rr have e: "fst c2 = r0" by simp
  from r0 e have a: "fst c2 \<in> set (reminders d)" by simp
  from notin e have b: "rid (fst c2) \<notin> S" by simp
  from a b due2 j show ?thesis by blast
qed

lemma wf_db_mark_sent:
  assumes wf: "wf_db d"
  shows "distinct (map rid (reminders (d\<lparr>reminders := mark_sent S now (reminders d)\<rparr>)))"
  using wf by (simp add: mark_sent_rid wf_db_def)

lemma distinct_rid_same_row:
  assumes "distinct (map rid rs)" "r \<in> set rs" "r' \<in> set rs" "rid r' = rid r"
  shows "r' = r"
  using assms by (auto simp: distinct_map dest: inj_onD)

lemma demo_due_again:
  "due_reminders 200 (demo_db\<lparr>reminders :=
         [(pending 1 1 100)\<lparr>is_sent := True, sent_at := Some 200\<rparr>, pending 2 2 50,
          pending 3 1 500, (pending 4 1 10)\<lparr>is_sent := True, sent_at := Some 20\<rparr>,
          pending 5 1 700]\<rparr>) = [(pending 2 2 50, ev_bob, bob)]"
  unfolding due_reminders_def
  by (simp add: demo_db_def List.map_filter_def select_related_def get_event_def get_user_def
      pending_def ev_ann_def ev_bob_def ann_def bob_def is_due_def)

section \<open>The import, step by step\<close>






text \<open>What the creation of records appends to the reminders, however it ends.\<close>

lemma create_reminder_appends:
  "\<exists>rs. reminders (fst (create_reminder d e a)) = reminders d @ rs
        \<and> (\<forall>r \<in> set rs. \<not> is_sent r \<and> sent_at r = None)"
  by (cases "astimezone_utc a") (simp_all add: create_reminder_def)

lemma create_reminders_appends:
  "\<exists>rs. reminders (fst (create_reminders d e due offs)) = reminders d @ rs
        \<and> (\<forall>r \<in> set rs. \<not> is_sent r \<and> sent_at r = None)"
proof (induction offs arbitrary: d)
  case Nil
  show ?case by simp
next
  case (Cons m offs)
  show ?case
  proof (cases "timedelta_minutes m")
    case (Inl err)
    then show ?thesis by simp
  next
    case (Inr delta)
    show ?thesis
    proof (cases "datetime_sub due delta")
      case (Inl err)
      with Inr show ?thesis by simp
    next
      case a: (Inr a)
      obtain d1 r1 where c: "create_reminder d e a = (d1, r1)" by (cases "create_reminder d e a")
      from create_reminder_appends [of d e a] obtain rs1 where
        1: "reminders d1 = reminders d @ rs1" "\<forall>r \<in> set rs1. \<not> is_sent r \<and> sent_at r = None"
        by (auto simp: c)
      show ?thesis
      proof (cases r1)
        case (Inl err)
        then have "fst (create_reminders d e due (m # offs)) = d1"
          by (simp add: Inr a c)
        with 1 show ?thesis by auto
      next
        case u: (Inr u)
        then have s: "fst (create_reminders d e due (m # offs)) = fst (create_reminders d1 e due offs)"
          by (simp add: Inr a c)
        from Cons.IH [of d1] obtain rs2 where
          2: "reminders (fst (create_reminders d1 e due offs)) = reminders d1 @ rs2"
             "\<forall>r \<in> set rs2. \<not> is_sent r \<and> sent_at r = None" by blast
        have "reminders (fst (create_reminders d e due (m # offs))) = reminders d @ (rs1 @ rs2)
            \<and> (\<forall>r \<in> set (rs1 @ rs2). \<not> is_sent r \<and> sent_at r = None)"
          unfolding s using 1 2 by auto
        then show ?thesis by blast
      qed
    qed
  qed
qed

lemma get_or_create_label_reminders [simp]:
  "reminders (fst (get_or_create_label d u nm)) = reminders d"
  by (simp add: get_or_create_label_def Let_def split: option.splits)

lemma labels_add_reminders [simp]: "reminders (labels_add d e l) = reminders d"
  by (simp add: labels_add_def)

lemma assign_labels_reminders [simp]: "reminders (assign_labels d u e nms) = reminders d"
proof (induction nms arbitrary: d)
  case Nil
  show ?case by simp
next
  case (Cons nm nms)
  obtain d1 l where g: "get_or_create_label d u nm = (d1, l)" by (cases "get_or_create_label d u nm")
  have k: "reminders d1 = reminders d"
    using get_or_create_label_reminders [of d u nm] by (simp add: g)
  show ?case by (simp add: g Cons.IH k)
qed

lemma create_event_reminders [simp]:
  "reminders (fst (create_event d u ttl descr due)) = reminders d"
  by (cases "astimezone_utc due") (simp_all add: create_event_def Let_def)

lemma create_events_appends:
  "\<exists>rs. reminders (fst (create_events d u ps created)) = reminders d @ rs
        \<and> (\<forall>r \<in> set rs. \<not> is_sent r \<and> sent_at r = None)"
proof (induction ps arbitrary: d created)
  case Nil
  show ?case by simp
next
  case (Cons p ps)
  obtain ttl descr due offsets lbls where p: "p = (ttl, descr, due, offsets, lbls)"
    by (cases p) auto
  obtain d1 r1 where ce: "create_event d u ttl descr due = (d1, r1)"
    by (cases "create_event d u ttl descr due")
  have k1: "reminders d1 = reminders d"
    using create_event_reminders [of d u ttl descr due] by (simp add: ce)
  show ?case
  proof (cases r1)
    case (Inl err)
    then have "fst (create_events d u (p # ps) created) = d1" by (simp add: p ce)
    with k1 show ?thesis by simp
  next
    case (Inr e)
    let ?dl = "assign_labels d1 u e lbls"
    obtain d2 r2 where cr: "create_reminders ?dl e due offsets = (d2, r2)"
      by (cases "create_reminders ?dl e due offsets")
    from create_reminders_appends [of ?dl e due offsets] obtain rs1 where
      1: "reminders d2 = reminders d @ rs1" "\<forall>r \<in> set rs1. \<not> is_sent r \<and> sent_at r = None"
      by (auto simp: cr k1)
    show ?thesis
    proof (cases r2)
      case (Inl err)
      then have "fst (create_events d u (p # ps) created) = d2" by (simp add: p ce Inr cr)
      with 1 show ?thesis by auto
    next
      case u: (Inr x)
      then have s: "fst (create_events d u (p # ps) created) = fst (create_events d2 u ps (created + 1))"
        by (simp add: p ce Inr cr)
      from Cons.IH [of d2 "created + 1"] obtain rs2 where
        2: "reminders (fst (create_events d2 u ps (created + 1))) = reminders d2 @ rs2"
           "\<forall>r \<in> set rs2. \<not> is_sent r \<and> sent_at r = None" by blast
      have "reminders (fst (create_events d u (p # ps) created)) = reminders d @ (rs1 @ rs2)
          \<and> (\<forall>r \<in> set (rs1 @ rs2). \<not> is_sent r \<and> sent_at r = None)"
        unfolding s using 1 2 by auto
      then show ?thesis by blast
    qed
  qed
qed

lemma import_appends:
  "\<exists>rs. reminders (fst (import_deadlines rt d user_email rows)) = reminders d @ rs
        \<and> (\<forall>r \<in> set rs. \<not> is_sent r \<and> sent_at r = None)"
proof -
  let ?us = "filter (\<lambda>u. email u = user_email) (users d)"
  have same: "fst (import_deadlines rt d user_email rows) = d \<Longrightarrow> ?thesis"
    by simp
  show ?thesis
  proof (cases ?us)
    case Nil
    then have "fst (import_deadlines rt d user_email rows) = d"
      by (simp add: import_deadlines_def)
    then show ?thesis by (rule same)
  next
    case (Cons u us)
    show ?thesis
    proof (cases us)
      case (Cons u' us')
      with \<open>?us = u # us\<close> have "fst (import_deadlines rt d user_email rows) = d"
        by (simp add: import_deadlines_def)
      then show ?thesis by (rule same)
    next
      case Nil
      with \<open>?us = u # us\<close> have one: "?us = [u]" by simp
      obtain errs ps where rr: "read_rows rt 2 rows [] [] = (errs, ps)"
        by (cases "read_rows rt 2 rows [] []")
      show ?thesis
      proof (cases "errs = []")
        case False
        then have "fst (import_deadlines rt d user_email rows) = d"
          unfolding import_deadlines_def one rr by simp
        then show ?thesis by (rule same)
      next
        case True
        have imp: "fst (import_deadlines rt d user_email rows) = fst (create_events d u ps 0)"
          unfolding import_deadlines_def one rr using True by (simp split: prod.splits)
        show ?thesis unfolding imp by (rule create_events_appends)
      qed
    qed
  qed
qed

lemma demo_fields:
  "field (demo_row ttl due offs) (str ''title'') = strip ttl"
  "field (demo_row ttl due offs) (str ''description'') = []"
  "field (demo_row ttl due offs) (str ''due_at'') = strip due"
  "field (demo_row ttl due offs) (str ''reminders_minutes_before'') = strip offs"
  "field (demo_row ttl due offs) (str ''labels'') = []"
  by (simp_all add: field_def demo_row_def strip_def)

lemma strip_plain [simp]:
  "strip (str ''Tax return'') = str ''Tax return''"
  "strip (str ''Passport'') = str ''Passport''"
  "strip (str ''2024-01-10 09:00'') = str ''2024-01-10 09:00''"
  "strip (str ''not-a-date'') = str ''not-a-date''"
  "strip (str ''1440,60'') = str ''1440,60''"
  "strip (str ''-60'') = str ''-60''"
  "strip (str ''60,2000000000'') = str ''60,2000000000''"
  "strip (str ''2000000000,60'') = str ''2000000000,60''"
  "strip [0xA0] = []"
  by (simp_all add: strip_def is_space_def str_def)

lemma demo_ints:
  "py_int rt (str ''-60'') = Some (- 60)"
  "py_int demo_rt [0xA0, 0x661, 0x662] = Some 12"
  by (simp_all add: py_int_def to_ascii_def ascii_space_def is_space_def digit_val_def str_def
      demo_rt_def Let_def)

lemma demo_offsets:
  "parse_offsets rt (str ''1440,60'') = Some [1440, 60]"
  "parse_offsets rt (str ''-60'') = Some [- 60]"
  "parse_offsets rt (str ''60,2000000000'') = Some [60, 2000000000]"
  "parse_offsets rt (str ''2000000000,60'') = Some [2000000000, 60]"
  by (simp_all add: parse_offsets_def py_int_def to_ascii_def ascii_space_def strip_def
      is_space_def digit_val_def str_def Let_def)

lemma demo_offsets_nbsp:
  "parse_offsets demo_rt (str ''60,'' @ [0xA0] @ str ''30'') = Some [60, 30]"
  by (simp add: parse_offsets_def py_int_def to_ascii_def ascii_space_def strip_def
      is_space_def digit_val_def str_def demo_rt_def Let_def)

lemma demo_parse_row:
  "parse_row (rt\<lparr>parser_parse := demo_parse\<rparr>) idx
     (demo_row (str ''Tax return'') (str ''2024-01-10 09:00'') (str ''1440,60''))
     = Inr (str ''Tax return'', [], tax_due, [1440, 60], [])"
  "parse_row (rt\<lparr>parser_parse := demo_parse\<rparr>) idx
     (demo_row (str ''Tax return'') (str ''2024-01-10 09:00'') (str ''-60''))
     = Inr (str ''Tax return'', [], tax_due, [- 60], [])"
  "parse_row (rt\<lparr>parser_parse := demo_parse\<rparr>) idx
     (demo_row (str ''Tax return'') (str ''2024-01-10 09:00'') (str ''60,2000000000''))
     = Inr (str ''Tax return'', [], tax_due, [60, 2000000000], [])"
  "parse_row (rt\<lparr>parser_parse := demo_parse\<rparr>) idx
     (demo_row (str ''Tax return'') (str ''2024-01-10 09:00'') (str ''2000000000,60''))
     = Inr (str ''Tax return'', [], tax_due, [2000000000, 60], [])"
  "parse_row (rt\<lparr>parser_parse := demo_parse\<rparr>) idx
     (demo_row (str ''Passport'') (str ''not-a-date'') (str ''1440,60''))
     = Inl (InvalidDueAt idx (str ''not-a-date''))"
  "parse_row (rt\<lparr>parser_parse := demo_parse\<rparr>) idx
     (demo_row [0xA0] (str ''2024-01-10 09:00'') (str ''1440,60''))
     = Inl (MissingTitle idx)"
  by (simp_all add: parse_row_def demo_fields demo_parse_def demo_offsets parse_labels_def Let_def)

lemma demo_rt_parse: "demo_rt\<lparr>parser_parse := demo_parse\<rparr> = demo_rt"
  by (simp add: demo_rt_def)

lemma demo_user: "filter (\<lambda>u. email u = str ''ann@example.com'') (users fresh_db) = [ann]"
  by (simp add: fresh_db_def ann_def bob_def str_def)

lemma demo_times:
  "mk_datetime 2024 1 10 9 0 = 63840560400000000"
  "mk_datetime 2024 1 10 7 0 = 63840553200000000"
  "mk_datetime 2024 1 10 6 0 = 63840549600000000"
  "mk_datetime 2024 1 10 8 0 = 63840556800000000"
  "mk_datetime 2024 1 10 10 0 = 63840564000000000"
  "mk_datetime 2024 1 9 7 0 = 63840466800000000"
  "mk_datetime 2024 1 9 8 0 = 63840470400000000"
  "mk_datetime 2024 1 9 9 0 = 63840474000000000"
  by (simp_all add: mk_datetime_def ymd2ord_def days_before_year_def days_before_month_def)

lemmas demo_times_Suc = demo_times [unfolded One_nat_def]

text \<open>The reminder of an offset of the sample row: the wall-clock time it is computed
  for, and the instant that is stored.\<close>

lemma demo_resolve:
  "timedelta_minutes 1440 = Inr 86400000000"
  "timedelta_minutes 60 = Inr 3600000000"
  "timedelta_minutes (- 60) = Inr (- 3600000000)"
  "timedelta_minutes 2000000000 = Inr 120000000000000000"
  "datetime_sub tax_due 86400000000 = Inr (tax_due\<lparr>wall := mk_datetime 2024 1 9 9 0, dt_fold := False\<rparr>)"
  "datetime_sub tax_due 3600000000 = Inr (tax_due\<lparr>wall := mk_datetime 2024 1 10 8 0, dt_fold := False\<rparr>)"
  "datetime_sub tax_due (- 3600000000) = Inr (tax_due\<lparr>wall := mk_datetime 2024 1 10 10 0, dt_fold := False\<rparr>)"
  "datetime_sub tax_due 120000000000000000 = Inl OverflowError"
  "astimezone_utc tax_due = Inr (mk_datetime 2024 1 10 7 0)"
  "astimezone_utc (tax_due\<lparr>wall := mk_datetime 2024 1 9 9 0, dt_fold := False\<rparr>)
     = Inr (mk_datetime 2024 1 9 7 0)"
  "astimezone_utc (tax_due\<lparr>wall := mk_datetime 2024 1 10 8 0, dt_fold := False\<rparr>)
     = Inr (mk_datetime 2024 1 10 6 0)"
  "astimezone_utc (tax_due\<lparr>wall := mk_datetime 2024 1 10 10 0, dt_fold := False\<rparr>)
     = Inr (mk_datetime 2024 1 10 8 0)"
  by (simp_all add: timedelta_minutes_def datetime_sub_def astimezone_utc_def tax_due_def
      demo_zone_def demo_times demo_times_Suc DATETIME_MIN_def DATETIME_MAX_def Let_def)

lemmas demo_resolve_Suc = demo_resolve [unfolded One_nat_def]

lemma demo_import_ok:
  "import_deadlines (rt\<lparr>parser_parse := demo_parse\<rparr>) fresh_db (str ''ann@example.com'')
     [demo_row (str ''Tax return'') (str ''2024-01-10 09:00'') (str ''1440,60'')]
   = (fresh_db\<lparr>events := [\<lparr>eid = 1, user_id = 1, title = str ''Tax return'', description = [],
                            due_at = mk_datetime 2024 1 10 7 0, status = STATUS_OPEN\<rparr>],
               reminders := [\<lparr>rid = 1, event_id = 1, channel = CHANNEL_EMAIL,
                               send_at = mk_datetime 2024 1 9 7 0, is_sent = False, sent_at = None\<rparr>,
                             \<lparr>rid = 2, event_id = 1, channel = CHANNEL_EMAIL,
                               send_at = mk_datetime 2024 1 10 6 0, is_sent = False, sent_at = None\<rparr>]\<rparr>,
      [], Inr 1)"
  unfolding import_deadlines_def demo_user
  by (simp add: demo_parse_row create_event_def create_reminder_def next_id_def demo_resolve demo_resolve_Suc
      Let_def)
     (simp add: fresh_db_def ann_def)

lemma demo_import_negative:
  "import_deadlines (rt\<lparr>parser_parse := demo_parse\<rparr>) fresh_db (str ''ann@example.com'')
     [demo_row (str ''Tax return'') (str ''2024-01-10 09:00'') (str ''-60'')]
   = (fresh_db\<lparr>events := [\<lparr>eid = 1, user_id = 1, title = str ''Tax return'', description = [],
                            due_at = mk_datetime 2024 1 10 7 0, status = STATUS_OPEN\<rparr>],
               reminders := [\<lparr>rid = 1, event_id = 1, channel = CHANNEL_EMAIL,
                               send_at = mk_datetime 2024 1 10 8 0, is_sent = False, sent_at = None\<rparr>]\<rparr>,
      [], Inr 1)"
  unfolding import_deadlines_def demo_user
  by (simp add: demo_parse_row create_event_def create_reminder_def next_id_def demo_resolve demo_resolve_Suc
      Let_def)
     (simp add: fresh_db_def ann_def)

lemma demo_import_overflow:
  "import_deadlines (rt\<lparr>parser_parse := demo_parse\<rparr>) fresh_db (str ''ann@example.com'')
     [demo_row (str ''Tax return'') (str ''2024-01-10 09:00'') (str ''60,2000000000'')]
   = (fresh_db\<lparr>events := [\<lparr>eid = 1, user_id = 1, title = str ''Tax return'', description = [],
                            due_at = mk_datetime 2024 1 10 7 0, status = STATUS_OPEN\<rparr>],
               reminders := [\<lparr>rid = 1, event_id = 1, channel = CHANNEL_EMAIL,
                               send_at = mk_datetime 2024 1 10 6 0, is_sent = False, sent_at = None\<rparr>]\<rparr>,
      [], Inl OverflowError)"
  unfolding import_deadlines_def demo_user
  by (simp add: demo_parse_row create_event_def create_reminder_def next_id_def demo_resolve demo_resolve_Suc
      Let_def)
     (simp add: fresh_db_def ann_def)

lemma demo_import_overflow_first:
  "import_deadlines (rt\<lparr>parser_parse := demo_parse\<rparr>) fresh_db (str ''ann@example.com'')
     [demo_row (str ''Tax return'') (str ''2024-01-10 09:00'') (str ''2000000000,60'')]
   = (fresh_db\<lparr>events := [\<lparr>eid = 1, user_id = 1, title = str ''Tax return'', description = [],
                            due_at = mk_datetime 2024 1 10 7 0, status = STATUS_OPEN\<rparr>]\<rparr>,
      [], Inl OverflowError)"
  unfolding import_deadlines_def demo_user
  by (simp add: demo_parse_row create_event_def create_reminder_def next_id_def demo_resolve demo_resolve_Suc
      Let_def)
     (simp add: fresh_db_def ann_def)


section \<open>Claims about the scan\<close>

text \<open>
  C1. Every invocation of the dispatch task fetches exactly the reminders with
  \<open>is_sent = false\<close> and \<open>send_at \<le> now\<close>, in ascending order of \<open>send_at\<close>, and at
  most 200 of them: the rows of the batch are the first 200 of the due rows sorted by
  \<open>send_at\<close>; each is a row of the table, unsent and due; there are
  \<open>min 200 (number of due rows)\<close> of them, so all of them when at most 200 are due and
  exactly 200 when more are (250 due: 200 fetched); a due row left out is not earlier
  than any fetched row; and whatever the outcome of the invocation, a row outside the
  batch is in the table afterwards as it was, so the remainder stays pending.
\<close>

theorem scan_selects_earliest_due_capped:
  assumes "wf_db d"
  shows "map fst (due_reminders now d)
           = take 200 (sort_key send_at (filter (is_due now) (reminders d)))
       \<and> (\<forall>r \<in> set (map fst (due_reminders now d)).
           r \<in> set (reminders d) \<and> \<not> is_sent r \<and> send_at r \<le> now)
       \<and> sorted (map send_at (map fst (due_reminders now d)))
       \<and> length (due_reminders now d) = min 200 (length (filter (is_due now) (reminders d)))
       \<and> (\<forall>r \<in> set (reminders d). is_due now r \<longrightarrow> r \<notin> set (map fst (due_reminders now d)) \<longrightarrow>
           (\<forall>b \<in> set (map fst (due_reminders now d)). send_at b \<le> send_at r))
       \<and> (length (filter (is_due now) (reminders d)) \<le> 200 \<longrightarrow>
           mset (map fst (due_reminders now d)) = mset (filter (is_due now) (reminders d)))
       \<and> (\<forall>r \<in> set (reminders d). r \<notin> set (map fst (due_reminders now d)) \<longrightarrow>
           r \<in> set (reminders (fst (send_due_reminders ev now d ob))))"
proof -
  have "\<forall>r \<in> set (reminders d). r \<notin> set (map fst (due_reminders now d)) \<longrightarrow>
           r \<in> set (reminders (fst (send_due_reminders ev now d ob)))"
    using outside_batch_unchanged [OF assms, of ev now ob] by (metis prod.collapse)
  with scan_parts [OF assms, of now] show ?thesis by blast
qed

theorem scan_selects_earliest_due_capped_witness:
  "wf_db demo_db
   \<and> map fst (due_reminders 200 demo_db) = [pending 2 2 50, pending 1 1 100]
   \<and> sorted (map send_at (map fst (due_reminders 200 demo_db)))
   \<and> length (due_reminders 200 demo_db) = min 200 (length (filter (is_due 200) (reminders demo_db)))
   \<and> pending 3 1 500 \<in> set (reminders (fst (send_due_reminders demo_env 200 demo_db [])))
   \<and> wf_db (backlog_db 0 0 250)
   \<and> length (filter (is_due 0) (reminders (backlog_db 0 0 250))) = 250
   \<and> length (due_reminders 0 (backlog_db 0 0 250)) = 200
   \<and> fst (send_due_reminders demo_env 0 (backlog_db 0 0 250) []) = backlog_db 0 200 250
   \<and> length (filter (is_due 0) (reminders (backlog_db 0 200 250))) = 50"
proof -
  note t = scan_selects_earliest_due_capped [OF demo_wf, of 200 demo_env "[]"]
  have 1: "map fst (due_reminders 200 demo_db) = [pending 2 2 50, pending 1 1 100]"
    by (simp add: demo_due)
  have 2: "sorted (map send_at (map fst (due_reminders 200 demo_db)))"
    using t by blast
  have 3: "length (due_reminders 200 demo_db)
             = min 200 (length (filter (is_due 200) (reminders demo_db)))"
    using t by blast
  have "pending 3 1 500 \<in> set (reminders demo_db)"
    by (simp add: demo_db_def)
  moreover have "pending 3 1 500 \<notin> set (map fst (due_reminders 200 demo_db))"
    by (simp add: demo_due pending_def)
  ultimately
  have 4: "pending 3 1 500 \<in> set (reminders (fst (send_due_reminders demo_env 200 demo_db [])))"
    using t by blast
  note b = scan_selects_earliest_due_capped [OF backlog_wf [of 0 0 250], of 0 demo_env "[]"]
  from b have "length (due_reminders 0 (backlog_db 0 0 250))
                 = min 200 (length (filter (is_due 0) (reminders (backlog_db 0 0 250))))"
    by blast
  then have 5: "length (due_reminders 0 (backlog_db 0 0 250)) = 200"
    by (simp add: backlog_250(1))
  show ?thesis using demo_wf 1 2 3 4 backlog_wf [of 0 0 250] backlog_250 5 by blast
qed

section \<open>Claims about the delivery loop\<close>

text \<open>
  C2. A candidate whose owner has no email address is skipped: after the invocation,
  whatever its outcome, the row of the reminder is in the table as it was (so
  \<open>is_sent\<close> is still false and the sent timestamp is what it was), it is the only row
  with that key, none of the mails delivered in the invocation goes to its (empty)
  address, the invocation behaves exactly as on the batch without the candidates that
  have no address (same database, same mails, same result, so no error comes from it),
  and a returned count is the number of candidates that have an address.
\<close>

theorem no_email_reminder_is_skipped:
  assumes wf: "wf_db d" and c: "c \<in> set (due_reminders now d)"
    and noaddr: "email (snd (snd c)) = []"
    and run: "send_due_reminders ev now d ob = (d', ob', res)"
  shows "fst c \<in> set (reminders d') \<and> \<not> is_sent (fst c)
       \<and> (\<forall>r \<in> set (reminders d'). rid r = rid (fst c) \<longrightarrow> r = fst c)
       \<and> (\<forall>m \<in> set (drop (length ob) ob'). recipient_list m \<noteq> [email (snd (snd c))])
       \<and> dispatch_loop ev now (filter emailable (due_reminders now d)) d ob 0 = (d', ob', res)
       \<and> (\<forall>n. res = Inr n \<longrightarrow>
             n = length (filter emailable (due_reminders now d)) \<and> n = length ob' - length ob)"
proof -
  from run obtain dn rest where
    b: "due_reminders now d = dn @ rest"
    and d': "d' = d\<lparr>reminders := mark_sent (sent_ids dn) now (reminders d)\<rparr>"
    and ob': "ob' = ob @ map (compose_mail ev d) (filter emailable dn)"
    and r: "case res of
        Inr k \<Rightarrow> rest = [] \<and> k = 0 + length (filter emailable dn)
      | Inl e \<Rightarrow> e = TransportError \<and> rest \<noteq> [] \<and> emailable (hd rest) \<and>
                 \<not> transport ev ob' (compose_mail ev d (hd rest))"
    unfolding send_due_reminders_def by (blast dest: dispatch_loop_char)
  have rows: "reminders d' = mark_sent (sent_ids dn) now (reminders d)"
    by (simp add: d')
  have cin: "fst c \<in> set (reminders d)" and cdue: "is_due now (fst c)"
    using due_rows_in_table [OF wf c] by blast+
  have notsent: "rid (fst c) \<notin> sent_ids dn"
  proof
    assume "rid (fst c) \<in> sent_ids dn"
    then obtain x where x: "x \<in> set dn" "emailable x" "rid (fst x) = rid (fst c)"
      by (blast dest: sent_ids_mem)
    from x(1) b have "x \<in> set (due_reminders now d)" by simp
    then have "x = c" using c x(3) by (rule due_same_id_same_candidate [OF wf])
    with x(2) noaddr show False by (simp add: emailable_def)
  qed
  have 1: "fst c \<in> set (reminders d')"
    unfolding rows using cin notsent by (rule mark_sent_keeps)
  have 2: "\<not> is_sent (fst c)" using cdue by (simp add: is_due_def)
  have 3: "\<forall>r \<in> set (reminders d'). rid r = rid (fst c) \<longrightarrow> r = fst c"
  proof (intro ballI impI)
    fix r assume r: "r \<in> set (reminders d')" and eq: "rid r = rid (fst c)"
    from r obtain r0 where r0: "r0 \<in> set (reminders d)"
      and rr: "r = (if rid r0 \<in> sent_ids dn then r0\<lparr>is_sent := True, sent_at := Some now\<rparr> else r0)"
      unfolding rows by (blast dest: mark_sent_row)
    have "rid r = rid r0" unfolding rr by simp
    with eq have "rid r0 = rid (fst c)" by simp
    with r0 cin wf have "r0 = fst c"
      by (auto simp: wf_db_def distinct_map dest: inj_onD)
    with notsent rr show "r = fst c" by simp
  qed
  have 4: "\<forall>m \<in> set (drop (length ob) ob'). recipient_list m \<noteq> [email (snd (snd c))]"
  proof
    fix m assume "m \<in> set (drop (length ob) ob')"
    then have "m \<in> set (map (compose_mail ev d) (filter emailable dn))"
      unfolding ob' by simp
    then obtain x where "emailable x" "m = compose_mail ev d x" by auto
    then show "recipient_list m \<noteq> [email (snd (snd c))]"
      by (simp add: compose_mail_recipient noaddr emailable_def)
  qed
  have 5: "dispatch_loop ev now (filter emailable (due_reminders now d)) d ob 0 = (d', ob', res)"
    using run by (simp only: dispatch_loop_filter send_due_reminders_def)
  have 6: "\<forall>n. res = Inr n \<longrightarrow>
             n = length (filter emailable (due_reminders now d)) \<and> n = length ob' - length ob"
  proof (intro allI impI)
    fix n assume "res = Inr n"
    with r have "rest = []" "n = length (filter emailable dn)" by simp_all
    with b ob' show "n = length (filter emailable (due_reminders now d)) \<and> n = length ob' - length ob"
      by simp
  qed
  from 1 2 3 4 5 6 show ?thesis by blast
qed

theorem no_email_reminder_is_skipped_witness:
  "wf_db demo_db
   \<and> (pending 2 2 50, ev_bob, bob) \<in> set (due_reminders 60 demo_db)
   \<and> email bob = []
   \<and> send_due_reminders demo_env 60 demo_db [] = (demo_db, [], Inr 0)
   \<and> pending 2 2 50 \<in> set (reminders demo_db) \<and> \<not> is_sent (pending 2 2 50)
   \<and> dispatch_loop demo_env 60 (filter emailable (due_reminders 60 demo_db)) demo_db [] 0
       = (demo_db, [], Inr 0)"
proof -
  have c: "(pending 2 2 50, ev_bob, bob) \<in> set (due_reminders 60 demo_db)"
    by (simp add: demo_due_60)
  have e: "email (snd (snd (pending 2 2 50, ev_bob, bob))) = []"
    by (simp add: bob_def)
  note t = no_email_reminder_is_skipped [OF demo_wf c e demo_run_60]
  have "pending 2 2 50 \<in> set (reminders demo_db) \<and> \<not> is_sent (pending 2 2 50)
     \<and> dispatch_loop demo_env 60 (filter emailable (due_reminders 60 demo_db)) demo_db [] 0
       = (demo_db, [], Inr 0)"
    using t by simp
  with demo_wf c e demo_run_60 show ?thesis by simp
qed

text \<open>
  C3. When the transport raises on the mail of a candidate \<open>c\<close>, after having accepted
  the mails of the candidates \<open>done\<close> before it, the invocation ends with that error;
  the database it leaves has the rows of the emailable candidates of \<open>done\<close> marked
  sent with the time of the invocation, the mails delivered are those of \<open>done\<close> and no
  other, and the rows of \<open>c\<close> and of every later candidate are in the table as they
  were, unsent.
\<close>

theorem transport_error_aborts_batch:
  assumes wf: "wf_db d"
    and batch: "due_reminders now d = done @ c # rest"
    and ok: "accepts_all ev d ob done"
    and c: "emailable c"
    and fail: "\<not> transport ev (ob @ map (compose_mail ev d) (filter emailable done))
                  (compose_mail ev d c)"
  shows "send_due_reminders ev now d ob =
           (d\<lparr>reminders := mark_sent (sent_ids done) now (reminders d)\<rparr>,
            ob @ map (compose_mail ev d) (filter emailable done), Inl TransportError)
       \<and> (\<forall>x \<in> set done. emailable x \<longrightarrow>
             (fst x)\<lparr>is_sent := True, sent_at := Some now\<rparr>
               \<in> set (mark_sent (sent_ids done) now (reminders d)))
       \<and> (\<forall>x \<in> set (c # rest).
             fst x \<in> set (mark_sent (sent_ids done) now (reminders d)) \<and> \<not> is_sent (fst x))"
proof -
  let ?d1 = "d\<lparr>reminders := mark_sent (sent_ids done) now (reminders d)\<rparr>"
  let ?ob1 = "ob @ map (compose_mail ev d) (filter emailable done)"
  have pre: "dispatch_loop ev now done d ob 0 = (?d1, ?ob1, Inr (0 + length (filter emailable done)))"
    by (rule dispatch_loop_accepts [OF ok])
  have stop: "dispatch_loop ev now (c # rest) ?d1 ?ob1 k = (?d1, ?ob1, Inl TransportError)" for k
    using c fail by (simp add: emailable_def Let_def compose_mail_reminders_update)
  have "dispatch_loop ev now (done @ c # rest) d ob 0
          = dispatch_loop ev now (c # rest) ?d1 ?ob1 (0 + length (filter emailable done))"
    by (simp only: dispatch_loop_append pre prod.case sum.case)
  also have "\<dots> = (?d1, ?ob1, Inl TransportError)" by (rule stop)
  finally have 1: "send_due_reminders ev now d ob = (?d1, ?ob1, Inl TransportError)"
    by (simp only: send_due_reminders_def batch)
  have 2: "\<forall>x \<in> set done. emailable x \<longrightarrow>
             (fst x)\<lparr>is_sent := True, sent_at := Some now\<rparr>
               \<in> set (mark_sent (sent_ids done) now (reminders d))"
  proof (intro ballI impI)
    fix x assume x: "x \<in> set done" "emailable x"
    then have "x \<in> set (due_reminders now d)" by (simp add: batch)
    then have "fst x \<in> set (reminders d)" using due_rows_in_table [OF wf] by blast
    moreover have "rid (fst x) \<in> sent_ids done" using x by (auto simp: sent_ids_def)
    ultimately show "(fst x)\<lparr>is_sent := True, sent_at := Some now\<rparr>
               \<in> set (mark_sent (sent_ids done) now (reminders d))"
      by (rule mark_sent_marks)
  qed
  have dist: "distinct (map (\<lambda>c. rid (fst c)) done @ map (\<lambda>c. rid (fst c)) (c # rest))"
    using due_ids_distinct [OF wf, of now] by (simp add: batch)
  have 3: "\<forall>x \<in> set (c # rest).
             fst x \<in> set (mark_sent (sent_ids done) now (reminders d)) \<and> \<not> is_sent (fst x)"
  proof
    fix x assume x: "x \<in> set (c # rest)"
    then have xin: "x \<in> set (due_reminders now d)" by (auto simp: batch)
    then have row: "fst x \<in> set (reminders d)" and due: "is_due now (fst x)"
      using due_rows_in_table [OF wf] by blast+
    have "rid (fst x) \<in> set (map (\<lambda>c. rid (fst c)) (c # rest))" using x by force
    with dist have "rid (fst x) \<notin> set (map (\<lambda>c. rid (fst c)) done)"
      unfolding distinct_append by blast
    then have "rid (fst x) \<notin> sent_ids done" by (auto simp: sent_ids_def)
    with row have "fst x \<in> set (mark_sent (sent_ids done) now (reminders d))"
      by (rule mark_sent_keeps)
    with due show "fst x \<in> set (mark_sent (sent_ids done) now (reminders d)) \<and> \<not> is_sent (fst x)"
      by (simp add: is_due_def)
  qed
  from 1 2 3 show ?thesis by blast
qed

theorem transport_error_aborts_batch_witness:
  "wf_db demo_db
   \<and> accepts_all flaky_env demo_db [] [(pending 2 2 50, ev_bob, bob), (pending 1 1 100, ev_ann, ann)]
   \<and> emailable (pending 3 1 500, ev_ann, ann)
   \<and> snd (snd (send_due_reminders flaky_env 1000 demo_db [])) = Inl TransportError
   \<and> length (fst (snd (send_due_reminders flaky_env 1000 demo_db []))) = 1
   \<and> (pending 1 1 100)\<lparr>is_sent := True, sent_at := Some 1000\<rparr>
        \<in> set (reminders (fst (send_due_reminders flaky_env 1000 demo_db [])))
   \<and> pending 3 1 500 \<in> set (reminders (fst (send_due_reminders flaky_env 1000 demo_db [])))
   \<and> pending 5 1 700 \<in> set (reminders (fst (send_due_reminders flaky_env 1000 demo_db [])))"
proof -
  let ?dn = "[(pending 2 2 50, ev_bob, bob), (pending 1 1 100, ev_ann, ann)]"
  have ok: "accepts_all flaky_env demo_db [] ?dn"
    by (simp add: emailable_def bob_def ann_def flaky_env_def)
  have c: "emailable (pending 3 1 500, ev_ann, ann)"
    by (simp add: emailable_def ann_def)
  have fail: "\<not> transport flaky_env ([] @ map (compose_mail flaky_env demo_db) (filter emailable ?dn))
                  (compose_mail flaky_env demo_db (pending 3 1 500, ev_ann, ann))"
    by (simp add: emailable_def bob_def ann_def flaky_env_def)
  note t = transport_error_aborts_batch [OF demo_wf demo_due_1000 ok c fail]
  have m: "length (filter emailable ?dn) = 1"
    by (simp add: emailable_def bob_def ann_def)
  have e: "emailable (pending 1 1 100, ev_ann, ann)"
    by (simp add: emailable_def ann_def)
  from t have run: "send_due_reminders flaky_env 1000 demo_db [] =
           (demo_db\<lparr>reminders := mark_sent (sent_ids ?dn) 1000 (reminders demo_db)\<rparr>,
            [] @ map (compose_mail flaky_env demo_db) (filter emailable ?dn), Inl TransportError)"
    by (rule conjunct1)
  from t e have 1: "(pending 1 1 100)\<lparr>is_sent := True, sent_at := Some 1000\<rparr>
        \<in> set (mark_sent (sent_ids ?dn) 1000 (reminders demo_db))"
    by force
  from t have 2: "pending 3 1 500 \<in> set (mark_sent (sent_ids ?dn) 1000 (reminders demo_db))"
    and 3: "pending 5 1 700 \<in> set (mark_sent (sent_ids ?dn) 1000 (reminders demo_db))"
    by force+
  show ?thesis
    unfolding run using demo_wf ok c 1 2 3 m by simp
qed

text \<open>
  C8. Whatever the outcome of the invocation, it went through a first part \<open>done\<close> of
  the batch and left the rest: the mails delivered in it are those of the candidates of
  \<open>done\<close> that have an address, one each and in order; the row of each of these reminders
  is in the database the invocation leaves, with \<open>is_sent\<close> true and the sent timestamp
  equal to the time the invocation read at its start, also when the transport raised on
  a later mail; the reminders of the rest are there as they were, unsent. The update is
  made reminder by reminder: wherever \<open>done\<close> is cut in two, the loop has, after the
  first part, marked each reminder sent in that part and counted it, and goes on from
  that database to the outcome. A returned count is the number of mails delivered, one
  for each candidate of the batch that has an address; an error is that of the transport
  on the first candidate of the rest.
\<close>

theorem successful_send_marks_and_counts:
  assumes wf: "wf_db d"
    and run: "send_due_reminders ev now d ob = (d', ob', res)"
  shows "\<exists>done rest.
        due_reminders now d = done @ rest
      \<and> ob' = ob @ map (compose_mail ev d) (filter emailable done)
      \<and> reminders d' = mark_sent (sent_ids done) now (reminders d)
      \<and> (\<forall>c \<in> set done. emailable c \<longrightarrow>
            (fst c)\<lparr>is_sent := True, sent_at := Some now\<rparr> \<in> set (reminders d'))
      \<and> (\<forall>c \<in> set rest. fst c \<in> set (reminders d') \<and> \<not> is_sent (fst c))
      \<and> (\<forall>dn rs. done = dn @ rs \<longrightarrow>
            dispatch_loop ev now dn d ob 0
              = (d\<lparr>reminders := mark_sent (sent_ids dn) now (reminders d)\<rparr>,
                 ob @ map (compose_mail ev d) (filter emailable dn),
                 Inr (length (filter emailable dn)))
          \<and> (\<forall>c \<in> set dn. emailable c \<longrightarrow>
                (fst c)\<lparr>is_sent := True, sent_at := Some now\<rparr>
                  \<in> set (mark_sent (sent_ids dn) now (reminders d)))
          \<and> dispatch_loop ev now (rs @ rest)
               (d\<lparr>reminders := mark_sent (sent_ids dn) now (reminders d)\<rparr>)
               (ob @ map (compose_mail ev d) (filter emailable dn))
               (length (filter emailable dn)) = (d', ob', res))
      \<and> (case res of
            Inr n \<Rightarrow> rest = [] \<and> n = length (filter emailable (due_reminders now d))
                     \<and> n = length ob' - length ob
          | Inl e \<Rightarrow> e = TransportError \<and> rest \<noteq> [] \<and> emailable (hd rest)
                     \<and> \<not> transport ev ob' (compose_mail ev d (hd rest)))"
proof -
  let ?b = "due_reminders now d"
  from run have tot: "dispatch_loop ev now ?b d ob 0 = (d', ob', res)"
    by (simp only: send_due_reminders_def)
  from dispatch_loop_splits [OF tot] obtain dn0 rest where
    b: "?b = dn0 @ rest" and acc: "accepts_all ev d ob dn0"
    and r: "case res of
        Inr k \<Rightarrow> rest = []
      | Inl e \<Rightarrow> e = TransportError \<and> rest \<noteq> [] \<and> emailable (hd rest) \<and>
                 \<not> transport ev (ob @ map (compose_mail ev d) (filter emailable dn0))
                      (compose_mail ev d (hd rest))"
    by blast
  let ?mark = "\<lambda>cs. d\<lparr>reminders := mark_sent (sent_ids cs) now (reminders d)\<rparr>"
  let ?mails = "\<lambda>cs. ob @ map (compose_mail ev d) (filter emailable cs)"
  have pre: "dispatch_loop ev now cs d ob 0 = (?mark cs, ?mails cs, Inr (length (filter emailable cs)))"
    if "accepts_all ev d ob cs" for cs
    using dispatch_loop_accepts [OF that, of now 0] by simp
  have cont: "dispatch_loop ev now ys (?mark xs) (?mails xs) (length (filter emailable xs)) = (d', ob', res)"
    if "?b = xs @ ys" "accepts_all ev d ob xs" for xs ys
  proof -
    have "dispatch_loop ev now (xs @ ys) d ob 0
            = dispatch_loop ev now ys (?mark xs) (?mails xs) (length (filter emailable xs))"
      by (simp only: dispatch_loop_append pre [OF that(2)] prod.case sum.case)
    with tot that(1) show ?thesis by simp
  qed
  from cont [OF b acc]
  have fin: "dispatch_loop ev now rest (?mark dn0) (?mails dn0) (length (filter emailable dn0))
               = (d', ob', res)" .
  have st: "d' = ?mark dn0 \<and> ob' = ?mails dn0
      \<and> (case res of
            Inr n \<Rightarrow> rest = [] \<and> n = length (filter emailable dn0)
          | Inl e \<Rightarrow> e = TransportError \<and> rest \<noteq> [] \<and> emailable (hd rest)
                     \<and> \<not> transport ev (?mails dn0) (compose_mail ev d (hd rest)))"
  proof (cases res)
    case (Inr n)
    with r have "rest = []" by simp
    with fin Inr show ?thesis by simp
  next
    case (Inl e)
    with r have e: "e = TransportError" and ne: "rest \<noteq> []" and em: "emailable (hd rest)"
      and no: "\<not> transport ev (?mails dn0) (compose_mail ev d (hd rest))" by simp_all
    from ne obtain c cs where rest: "rest = c # cs" by (cases rest) auto
    from em no have "dispatch_loop ev now (c # cs) (?mark dn0) (?mails dn0) (length (filter emailable dn0))
        = (?mark dn0, ?mails dn0, Inl TransportError)"
      unfolding rest by (simp add: emailable_def Let_def compose_mail_reminders_update)
    with fin have "d' = ?mark dn0" "ob' = ?mails dn0" unfolding rest by simp_all
    with Inl e ne em no show ?thesis by simp
  qed
  then have d': "d' = ?mark dn0" and ob': "ob' = ?mails dn0"
    and c: "case res of
            Inr n \<Rightarrow> rest = [] \<and> n = length (filter emailable dn0)
          | Inl e \<Rightarrow> e = TransportError \<and> rest \<noteq> [] \<and> emailable (hd rest)
                     \<and> \<not> transport ev (?mails dn0) (compose_mail ev d (hd rest))"
    by blast+
  have rows: "reminders d' = mark_sent (sent_ids dn0) now (reminders d)" by (simp add: d')
  have marks: "\<forall>c \<in> set cs. emailable c \<longrightarrow>
      (fst c)\<lparr>is_sent := True, sent_at := Some now\<rparr> \<in> set (mark_sent (sent_ids cs) now (reminders d))"
    if sub: "set cs \<subseteq> set ?b" for cs
  proof (intro ballI impI)
    fix c assume c: "c \<in> set cs" "emailable c"
    with sub have "c \<in> set ?b" by blast
    then have "fst c \<in> set (reminders d)" using due_rows_in_table [OF wf] by blast
    moreover have "rid (fst c) \<in> sent_ids cs" using c by (auto simp: sent_ids_def)
    ultimately show "(fst c)\<lparr>is_sent := True, sent_at := Some now\<rparr>
        \<in> set (mark_sent (sent_ids cs) now (reminders d))"
      by (rule mark_sent_marks)
  qed
  have 3: "\<forall>c \<in> set dn0. emailable c \<longrightarrow>
            (fst c)\<lparr>is_sent := True, sent_at := Some now\<rparr> \<in> set (reminders d')"
    unfolding rows by (rule marks) (simp add: b)
  have dist: "distinct (map (\<lambda>c. rid (fst c)) dn0 @ map (\<lambda>c. rid (fst c)) rest)"
    using due_ids_distinct [OF wf, of now] by (simp add: b)
  have 4: "\<forall>x \<in> set rest. fst x \<in> set (reminders d') \<and> \<not> is_sent (fst x)"
  proof
    fix x assume x: "x \<in> set rest"
    then have xin: "x \<in> set ?b" by (simp add: b)
    then have row: "fst x \<in> set (reminders d)" and due: "is_due now (fst x)"
      using due_rows_in_table [OF wf] by blast+
    have "rid (fst x) \<in> set (map (\<lambda>c. rid (fst c)) rest)" using x by force
    with dist have "rid (fst x) \<notin> set (map (\<lambda>c. rid (fst c)) dn0)"
      unfolding distinct_append by blast
    then have "rid (fst x) \<notin> sent_ids dn0" by (auto simp: sent_ids_def)
    with row have "fst x \<in> set (mark_sent (sent_ids dn0) now (reminders d))"
      by (rule mark_sent_keeps)
    with due show "fst x \<in> set (reminders d') \<and> \<not> is_sent (fst x)"
      unfolding rows by (simp add: is_due_def)
  qed
  have 5: "\<forall>dn rs. dn0 = dn @ rs \<longrightarrow>
            dispatch_loop ev now dn d ob 0
              = (?mark dn, ?mails dn, Inr (length (filter emailable dn)))
          \<and> (\<forall>c \<in> set dn. emailable c \<longrightarrow>
                (fst c)\<lparr>is_sent := True, sent_at := Some now\<rparr>
                  \<in> set (mark_sent (sent_ids dn) now (reminders d)))
          \<and> dispatch_loop ev now (rs @ rest) (?mark dn) (?mails dn)
               (length (filter emailable dn)) = (d', ob', res)"
  proof (intro allI impI)
    fix dn rs assume split: "dn0 = dn @ rs"
    from acc have a: "accepts_all ev d ob dn" unfolding split accepts_all_append by (rule conjunct1)
    have bb: "?b = dn @ (rs @ rest)" by (simp add: b split)
    have m: "\<forall>c \<in> set dn. emailable c \<longrightarrow>
                (fst c)\<lparr>is_sent := True, sent_at := Some now\<rparr>
                  \<in> set (mark_sent (sent_ids dn) now (reminders d))"
      by (rule marks) (simp add: bb)
    from pre [OF a] m cont [OF bb a]
    show "dispatch_loop ev now dn d ob 0
              = (?mark dn, ?mails dn, Inr (length (filter emailable dn)))
          \<and> (\<forall>c \<in> set dn. emailable c \<longrightarrow>
                (fst c)\<lparr>is_sent := True, sent_at := Some now\<rparr>
                  \<in> set (mark_sent (sent_ids dn) now (reminders d)))
          \<and> dispatch_loop ev now (rs @ rest) (?mark dn) (?mails dn)
               (length (filter emailable dn)) = (d', ob', res)"
      by blast
  qed
  have 6: "case res of
            Inr n \<Rightarrow> rest = [] \<and> n = length (filter emailable ?b)
                     \<and> n = length ob' - length ob
          | Inl e \<Rightarrow> e = TransportError \<and> rest \<noteq> [] \<and> emailable (hd rest)
                     \<and> \<not> transport ev ob' (compose_mail ev d (hd rest))"
    using c by (auto simp: ob' b split: sum.splits)
  from b ob' rows 3 4 5 6 show ?thesis by blast
qed



theorem successful_send_marks_and_counts_witness:
  "wf_db demo_db
   \<and> send_due_reminders demo_env 200 demo_db [] =
       (demo_db\<lparr>reminders :=
         [(pending 1 1 100)\<lparr>is_sent := True, sent_at := Some 200\<rparr>, pending 2 2 50,
          pending 3 1 500, (pending 4 1 10)\<lparr>is_sent := True, sent_at := Some 20\<rparr>,
          pending 5 1 700]\<rparr>,
        [compose_mail demo_env demo_db (pending 1 1 100, ev_ann, ann)], Inr 1)
   \<and> (1::nat) = length (filter emailable (due_reminders 200 demo_db))
   \<and> send_due_reminders flaky_env 1000 demo_db [] =
       (demo_db\<lparr>reminders :=
         [(pending 1 1 100)\<lparr>is_sent := True, sent_at := Some 1000\<rparr>, pending 2 2 50,
          pending 3 1 500, (pending 4 1 10)\<lparr>is_sent := True, sent_at := Some 20\<rparr>,
          pending 5 1 700]\<rparr>,
        [compose_mail flaky_env demo_db (pending 1 1 100, ev_ann, ann)], Inl TransportError)
   \<and> (\<exists>done rest.
         due_reminders 1000 demo_db = done @ rest
       \<and> [compose_mail flaky_env demo_db (pending 1 1 100, ev_ann, ann)]
            = [] @ map (compose_mail flaky_env demo_db) (filter emailable done)
       \<and> rest \<noteq> [] \<and> emailable (hd rest))"
proof -
  from successful_send_marks_and_counts [OF demo_wf demo_run]
  have 1: "(1::nat) = length (filter emailable (due_reminders 200 demo_db))"
    by auto
  from successful_send_marks_and_counts [OF demo_wf flaky_run]
  obtain dn rest where a: "due_reminders 1000 demo_db = dn @ rest"
    and b: "[compose_mail flaky_env demo_db (pending 1 1 100, ev_ann, ann)]
            = [] @ map (compose_mail flaky_env demo_db) (filter emailable dn)"
    and c: "case (Inl TransportError :: error + nat) of
            Inr n \<Rightarrow> rest = [] \<and> n = length (filter emailable (due_reminders 1000 demo_db))
                     \<and> n = length [compose_mail flaky_env demo_db (pending 1 1 100, ev_ann, ann)]
                           - length ([] :: mail list)
          | Inl e \<Rightarrow> e = TransportError \<and> rest \<noteq> [] \<and> emailable (hd rest)
                     \<and> \<not> transport flaky_env
                           [compose_mail flaky_env demo_db (pending 1 1 100, ev_ann, ann)]
                           (compose_mail flaky_env demo_db (hd rest))"
    by blast
  from c have "rest \<noteq> []" "emailable (hd rest)" by simp_all
  with a b have 2: "\<exists>done rest.
         due_reminders 1000 demo_db = done @ rest
       \<and> [compose_mail flaky_env demo_db (pending 1 1 100, ev_ann, ann)]
            = [] @ map (compose_mail flaky_env demo_db) (filter emailable done)
       \<and> rest \<noteq> [] \<and> emailable (hd rest)"
    by blast
  from demo_wf demo_run 1 flaky_run 2 show ?thesis by blast
qed

section \<open>Claims about the cap\<close>

text \<open>
  C10. The cap of 200 is on the candidates fetched, not on the mails sent: the batch has
  at most 200 candidates, and a returned count plus the number of candidates of the
  batch without an address is the size of the batch. So an invocation can send fewer
  than 200 mails while more than 200 sendable reminders are due, the rest of them being
  left for a later invocation: there is such a database (one reminder without address
  ahead of 201 sendable ones gives 199 mails and leaves 2 sendable reminders due).
\<close>

theorem cap_bounds_examined_not_sent:
  assumes run: "send_due_reminders ev now d ob = (d', ob', Inr n)"
  shows "length (due_reminders now d) \<le> 200
       \<and> n + length (filter (\<lambda>c. \<not> emailable c) (due_reminders now d))
           = length (due_reminders now d)
       \<and> (\<exists>ev0 now0 d0 d1 ob1 n0.
             wf_db d0 \<and> 200 < length (sendable_due now0 d0)
           \<and> send_due_reminders ev0 now0 d0 [] = (d1, ob1, Inr n0)
           \<and> n0 < 200 \<and> 0 < length (sendable_due now0 d1))"
proof -
  have 1: "length (due_reminders now d) \<le> 200" by (simp add: due_reminders_def)
  from run have "n = 0 + length (filter emailable (due_reminders now d))"
    unfolding send_due_reminders_def by (rule loop_count)
  then have 2: "n + length (filter (\<lambda>c. \<not> emailable c) (due_reminders now d))
           = length (due_reminders now d)"
    by (simp add: sum_length_filter_compl)
  have r: "send_due_reminders demo_env 0 (backlog_db 1 1 202) [] =
           (backlog_db 1 200 202,
            [] @ map (compose_mail demo_env (backlog_db 1 1 202))
                   (map (backlog_cand 1 1) [1..<200]), Inr 199)"
    using backlog_run [of 1 1 202 "[]"] by simp
  have a: "200 < length (sendable_due 0 (backlog_db 1 1 202))"
    by (simp add: backlog_sendable)
  have b: "0 < length (sendable_due 0 (backlog_db 1 200 202))"
    by (simp add: backlog_sendable)
  have "wf_db (backlog_db 1 1 202) \<and> 200 < length (sendable_due 0 (backlog_db 1 1 202))
           \<and> send_due_reminders demo_env 0 (backlog_db 1 1 202) [] =
               (backlog_db 1 200 202,
                [] @ map (compose_mail demo_env (backlog_db 1 1 202))
                   (map (backlog_cand 1 1) [1..<200]), Inr 199)
           \<and> (199::nat) < 200 \<and> 0 < length (sendable_due 0 (backlog_db 1 200 202))"
    using backlog_wf a r b by simp
  then have 3: "\<exists>ev0 now0 d0 d1 ob1 n0.
             wf_db d0 \<and> 200 < length (sendable_due now0 d0)
           \<and> send_due_reminders ev0 now0 d0 [] = (d1, ob1, Inr n0)
           \<and> n0 < 200 \<and> 0 < length (sendable_due now0 d1)"
    by blast
  from 1 2 3 show ?thesis by blast
qed

theorem cap_bounds_examined_not_sent_witness:
  "send_due_reminders demo_env 0 (backlog_db 1 1 202) [] =
     (backlog_db 1 200 202,
      map (compose_mail demo_env (backlog_db 1 1 202)) (map (backlog_cand 1 1) [1..<200]),
      Inr 199)
   \<and> length (sendable_due 0 (backlog_db 1 1 202)) = 201
   \<and> length (sendable_due 0 (backlog_db 1 200 202)) = 2
   \<and> length (due_reminders 0 (backlog_db 1 1 202)) \<le> 200
   \<and> 199 + length (filter (\<lambda>c. \<not> emailable c) (due_reminders 0 (backlog_db 1 1 202)))
        = length (due_reminders 0 (backlog_db 1 1 202))"
proof -
  have r: "send_due_reminders demo_env 0 (backlog_db 1 1 202) [] =
     (backlog_db 1 200 202,
      map (compose_mail demo_env (backlog_db 1 1 202)) (map (backlog_cand 1 1) [1..<200]),
      Inr 199)"
    using backlog_run [of 1 1 202 "[]"] by simp
  note t = cap_bounds_examined_not_sent [OF r]
  have a: "length (sendable_due 0 (backlog_db 1 1 202)) = 201"
    by (simp add: backlog_sendable)
  have b: "length (sendable_due 0 (backlog_db 1 200 202)) = 2"
    by (simp add: backlog_sendable)
  from r a b t show ?thesis by blast
qed

section \<open>Claims about repeated invocations\<close>

text \<open>
  C6, as stated, fails on a backlog. With 201 reminders of one owner due at the same
  time, the first invocation sends the 200 of the batch, and a second invocation at the
  same instant, so that nothing has become due in between, sends the one left over: its
  count is 1, not 0.
\<close>

theorem second_run_sends_leftover:
  "length (filter (is_due 0) (reminders (backlog_db 0 0 201))) = 201
   \<and> snd (snd (send_due_reminders demo_env 0 (backlog_db 0 0 201) [])) = Inr 200
   \<and> snd (snd (send_due_reminders demo_env 0
         (fst (send_due_reminders demo_env 0 (backlog_db 0 0 201) []))
         (fst (snd (send_due_reminders demo_env 0 (backlog_db 0 0 201) []))))) = Inr 1"
  unfolding run_200_of_201 by (simp add: run_1_of_201 backlog_due_rows)

text \<open>
  C6, amended. Whatever the first invocation returned, every reminder that a second
  invocation selects is a row that the first one left as it was (so the first did not
  send it), and no other row has its key. If moreover the first invocation returned a
  count, at most 200 reminders were due at its start, and none has become due since,
  then the second invocation sends nothing: it returns 0 and changes neither the
  database nor the outbox.
\<close>

theorem second_run_sends_nothing:
  assumes wf: "wf_db d"
    and run1: "send_due_reminders ev now d ob = (d1, ob1, res1)"
  shows "(\<forall>c2 \<in> set (due_reminders now2 d1).
            fst c2 \<in> set (reminders d) \<and>
            (\<forall>r' \<in> set (reminders d1). rid r' = rid (fst c2) \<longrightarrow> r' = fst c2))
       \<and> ((\<exists>n1. res1 = Inr n1) \<longrightarrow> length (filter (is_due now) (reminders d)) \<le> 200 \<longrightarrow>
            (\<forall>r \<in> set (reminders d). is_due now2 r \<longrightarrow> is_due now r) \<longrightarrow>
            send_due_reminders ev2 now2 d1 ob1 = (d1, ob1, Inr 0))"
proof -
  let ?B = "due_reminders now d"
  from run1 obtain dn rest where
    b: "?B = dn @ rest"
    and d1: "d1 = d\<lparr>reminders := mark_sent (sent_ids dn) now (reminders d)\<rparr>"
    and r: "case res1 of
        Inr k \<Rightarrow> rest = [] \<and> k = 0 + length (filter emailable dn)
      | Inl e \<Rightarrow> e = TransportError \<and> rest \<noteq> [] \<and> emailable (hd rest) \<and>
                 \<not> transport ev ob1 (compose_mail ev d (hd rest))"
    unfolding send_due_reminders_def by (blast dest: dispatch_loop_char)
  note old = rerun_candidate_untouched [OF d1]
  have dist1: "distinct (map rid (reminders d1))"
    unfolding d1 using wf by (rule wf_db_mark_sent)
  have 1: "\<forall>c2 \<in> set (due_reminders now2 d1).
            fst c2 \<in> set (reminders d) \<and>
            (\<forall>r' \<in> set (reminders d1). rid r' = rid (fst c2) \<longrightarrow> r' = fst c2)"
  proof (intro ballI conjI impI)
    fix c2 assume c2: "c2 \<in> set (due_reminders now2 d1)"
    from old [OF c2] show "fst c2 \<in> set (reminders d)" by (rule conjunct1)
    fix r' assume r': "r' \<in> set (reminders d1)" and eq: "rid r' = rid (fst c2)"
    have "fst c2 \<in> set (reminders d1)" using c2 by (rule due_candidate_in_table)
    with dist1 show "r' = fst c2" using r' eq by (rule distinct_rid_same_row)
  qed
  have 2: "send_due_reminders ev2 now2 d1 ob1 = (d1, ob1, Inr 0)"
    if ok: "\<exists>n1. res1 = Inr n1"
      and small: "length (filter (is_due now) (reminders d)) \<le> 200"
      and nonew: "\<forall>r \<in> set (reminders d). is_due now2 r \<longrightarrow> is_due now r"
  proof -
    from ok r have rest: "rest = []" by auto
    with b have bdn: "?B = dn" by simp
    from scan_parts(6) [OF wf] small
    have ms: "mset (map fst ?B) = mset (filter (is_due now) (reminders d))" by blast
    have "\<not> emailable c2" if c2: "c2 \<in> set (due_reminders now2 d1)" for c2
    proof
      assume e: "emailable c2"
      from old [OF c2] have o1: "fst c2 \<in> set (reminders d)"
        and o2: "rid (fst c2) \<notin> sent_ids dn"
        and o3: "is_due now2 (fst c2)"
        and o4: "select_related d (fst c2) = Some c2" by blast+
      from o1 o3 nonew have "is_due now (fst c2)" by blast
      with o1 have "fst c2 \<in> set (filter (is_due now) (reminders d))" by simp
      then have "fst c2 \<in># mset (filter (is_due now) (reminders d))" by simp
      then have "fst c2 \<in># mset (map fst ?B)" by (simp only: ms)
      then have "fst c2 \<in> set (map fst ?B)" by simp
      then obtain x where x: "x \<in> set ?B" and fx: "fst x = fst c2" by auto
      have "Some x = select_related d (fst x)" by (rule due_rows_joined [OF x, symmetric])
      also have "\<dots> = select_related d (fst c2)" by (simp only: fx)
      also have "\<dots> = Some c2" by (rule o4)
      finally have "x = c2" by (simp only: option.inject)
      with x bdn have "c2 \<in> set dn" by simp
      with e have "rid (fst c2) \<in> sent_ids dn" unfolding sent_ids_def by simp
      with o2 show False by simp
    qed
    then have "\<forall>c \<in> set (due_reminders now2 d1). \<not> emailable c" by blast
    then show ?thesis unfolding send_due_reminders_def by (rule dispatch_loop_none_emailable)
  qed
  from 1 2 show ?thesis by blast
qed

theorem second_run_sends_nothing_witness:
  "send_due_reminders demo_env 200 demo_db [] =
     (demo_db\<lparr>reminders :=
         [(pending 1 1 100)\<lparr>is_sent := True, sent_at := Some 200\<rparr>, pending 2 2 50,
          pending 3 1 500, (pending 4 1 10)\<lparr>is_sent := True, sent_at := Some 20\<rparr>,
          pending 5 1 700]\<rparr>,
      [compose_mail demo_env demo_db (pending 1 1 100, ev_ann, ann)], Inr 1)
   \<and> send_due_reminders demo_env 200
       (demo_db\<lparr>reminders :=
         [(pending 1 1 100)\<lparr>is_sent := True, sent_at := Some 200\<rparr>, pending 2 2 50,
          pending 3 1 500, (pending 4 1 10)\<lparr>is_sent := True, sent_at := Some 20\<rparr>,
          pending 5 1 700]\<rparr>)
       [compose_mail demo_env demo_db (pending 1 1 100, ev_ann, ann)]
     = (demo_db\<lparr>reminders :=
         [(pending 1 1 100)\<lparr>is_sent := True, sent_at := Some 200\<rparr>, pending 2 2 50,
          pending 3 1 500, (pending 4 1 10)\<lparr>is_sent := True, sent_at := Some 20\<rparr>,
          pending 5 1 700]\<rparr>,
        [compose_mail demo_env demo_db (pending 1 1 100, ev_ann, ann)], Inr 0)
   \<and> pending 2 2 50 \<in> set (reminders demo_db)"
proof -
  note t = second_run_sends_nothing [OF demo_wf demo_run, of 200 demo_env]
  have small: "length (filter (is_due 200) (reminders demo_db)) \<le> 200"
    by (simp add: demo_db_def)
  from t have "send_due_reminders demo_env 200
       (demo_db\<lparr>reminders :=
         [(pending 1 1 100)\<lparr>is_sent := True, sent_at := Some 200\<rparr>, pending 2 2 50,
          pending 3 1 500, (pending 4 1 10)\<lparr>is_sent := True, sent_at := Some 20\<rparr>,
          pending 5 1 700]\<rparr>)
       [compose_mail demo_env demo_db (pending 1 1 100, ev_ann, ann)]
     = (demo_db\<lparr>reminders :=
         [(pending 1 1 100)\<lparr>is_sent := True, sent_at := Some 200\<rparr>, pending 2 2 50,
          pending 3 1 500, (pending 4 1 10)\<lparr>is_sent := True, sent_at := Some 20\<rparr>,
          pending 5 1 700]\<rparr>,
        [compose_mail demo_env demo_db (pending 1 1 100, ev_ann, ann)], Inr 0)"
    using small by blast
  moreover from t have "\<forall>c2 \<in> set (due_reminders 200 (demo_db\<lparr>reminders :=
         [(pending 1 1 100)\<lparr>is_sent := True, sent_at := Some 200\<rparr>, pending 2 2 50,
          pending 3 1 500, (pending 4 1 10)\<lparr>is_sent := True, sent_at := Some 20\<rparr>,
          pending 5 1 700]\<rparr>)). fst c2 \<in> set (reminders demo_db)" by blast
  then have "pending 2 2 50 \<in> set (reminders demo_db)"
    unfolding demo_due_again by simp
  ultimately show ?thesis using demo_run by blast
qed

section \<open>Claims about the import\<close>



text \<open>
  C4 fails on the code. For the due time 2024-01-10 09:00 and the offsets 60 and
  2000000000, which parse as integers under every runtime, the import creates the event
  and the reminder of the first offset and ends with OverflowError at the second: no
  reminder exists for that offset, and the command has written records before it
  failed. With the offsets in the other order it creates the event and ends with the
  error at once: the offset 60 has no reminder either.
\<close>

theorem import_offset_out_of_range:
  "parse_offsets rt (str ''60,2000000000'') = Some [60, 2000000000]
   \<and> import_deadlines (rt\<lparr>parser_parse := demo_parse\<rparr>) fresh_db (str ''ann@example.com'')
        [demo_row (str ''Tax return'') (str ''2024-01-10 09:00'') (str ''60,2000000000'')]
      = (fresh_db\<lparr>events := [\<lparr>eid = 1, user_id = 1, title = str ''Tax return'', description = [],
                            due_at = mk_datetime 2024 1 10 7 0, status = STATUS_OPEN\<rparr>],
               reminders := [\<lparr>rid = 1, event_id = 1, channel = CHANNEL_EMAIL,
                               send_at = mk_datetime 2024 1 10 6 0, is_sent = False, sent_at = None\<rparr>]\<rparr>,
         [], Inl OverflowError)
   \<and> parse_offsets rt (str ''2000000000,60'') = Some [2000000000, 60]
   \<and> import_deadlines (rt\<lparr>parser_parse := demo_parse\<rparr>) fresh_db (str ''ann@example.com'')
        [demo_row (str ''Tax return'') (str ''2024-01-10 09:00'') (str ''2000000000,60'')]
      = (fresh_db\<lparr>events := [\<lparr>eid = 1, user_id = 1, title = str ''Tax return'', description = [],
                            due_at = mk_datetime 2024 1 10 7 0, status = STATUS_OPEN\<rparr>]\<rparr>,
         [], Inl OverflowError)"
  using demo_offsets(3,4) [of rt] demo_import_overflow [of rt] demo_import_overflow_first [of rt]
  by blast

text \<open>
  C9. The import accepts negative offsets: under every runtime \<open>-60\<close> parses as the
  integer \<open>-60\<close>, the import of a row due at 2024-01-10 09:00 (07:00 UTC) with that
  offset succeeds, and the reminder it creates has the send time 10:00 of that day
  (08:00 UTC), which is \<open>D - (-60)\<close> minutes and strictly after the due time.
\<close>

theorem negative_offset_is_accepted:
  "py_int rt (str ''-60'') = Some (- 60)
   \<and> parse_offsets rt (str ''-60'') = Some [- 60]
   \<and> import_deadlines (rt\<lparr>parser_parse := demo_parse\<rparr>) fresh_db (str ''ann@example.com'')
        [demo_row (str ''Tax return'') (str ''2024-01-10 09:00'') (str ''-60'')]
      = (fresh_db\<lparr>events := [\<lparr>eid = 1, user_id = 1, title = str ''Tax return'', description = [],
                            due_at = mk_datetime 2024 1 10 7 0, status = STATUS_OPEN\<rparr>],
               reminders := [\<lparr>rid = 1, event_id = 1, channel = CHANNEL_EMAIL,
                               send_at = mk_datetime 2024 1 10 8 0, is_sent = False, sent_at = None\<rparr>]\<rparr>,
         [], Inr 1)
   \<and> mk_datetime 2024 1 10 7 0 < mk_datetime 2024 1 10 8 0
   \<and> mk_datetime 2024 1 10 8 0 = mk_datetime 2024 1 10 7 0 - (- 60) * 60000000
   \<and> datetime_sub tax_due ((- 60) * 60000000)
       = Inr (tax_due\<lparr>wall := mk_datetime 2024 1 10 10 0, dt_fold := False\<rparr>)
   \<and> wall tax_due < mk_datetime 2024 1 10 10 0"
proof -
  have 1: "mk_datetime 2024 1 10 7 0 < mk_datetime 2024 1 10 8 0"
    by (simp add: demo_times demo_times_Suc)
  have 2: "mk_datetime 2024 1 10 8 0 = mk_datetime 2024 1 10 7 0 - (- 60) * 60000000"
    by (simp add: demo_times demo_times_Suc)
  have 3: "datetime_sub tax_due ((- 60) * 60000000)
       = Inr (tax_due\<lparr>wall := mk_datetime 2024 1 10 10 0, dt_fold := False\<rparr>)"
    using demo_resolve(7) by simp
  have 4: "wall tax_due < mk_datetime 2024 1 10 10 0"
    by (simp add: tax_due_def demo_times demo_times_Suc)
  from demo_ints(1) [of rt] demo_offsets(2) [of rt] demo_import_negative [of rt] 1 2 3 4
  show ?thesis by blast
qed

section \<open>Runs of the operations\<close>

lemma dispatch_rows:
  "\<exists>S. reminders (fst (send_due_reminders ev now d ob)) = mark_sent S now (reminders d)
       \<and> (wf_db d \<longrightarrow> (\<forall>r \<in> set (reminders d). rid r \<in> S \<longrightarrow> \<not> is_sent r))"
proof -
  obtain d' ob' res where run: "send_due_reminders ev now d ob = (d', ob', res)"
    by (cases "send_due_reminders ev now d ob")
  from run obtain dn rest where
    b: "due_reminders now d = dn @ rest"
    and d': "d' = d\<lparr>reminders := mark_sent (sent_ids dn) now (reminders d)\<rparr>"
    unfolding send_due_reminders_def by (blast dest: dispatch_loop_char)
  have 1: "reminders (fst (send_due_reminders ev now d ob)) = mark_sent (sent_ids dn) now (reminders d)"
    unfolding run by (simp add: d')
  have 2: "wf_db d \<longrightarrow> (\<forall>r \<in> set (reminders d). rid r \<in> sent_ids dn \<longrightarrow> \<not> is_sent r)"
  proof (intro impI ballI)
    fix r assume wf: "wf_db d" and r: "r \<in> set (reminders d)" and s: "rid r \<in> sent_ids dn"
    from s obtain x where x: "x \<in> set dn" "rid (fst x) = rid r"
      by (blast dest: sent_ids_mem)
    from x(1) b have xb: "x \<in> set (due_reminders now d)" by simp
    have "fst x = r" by (rule due_rows_same_id [OF wf xb r x(2)])
    moreover have "is_due now (fst x)" using due_rows_in_table [OF wf xb] by (rule conjunct2)
    ultimately show "\<not> is_sent r" by (simp add: is_due_def)
  qed
  from 1 2 show ?thesis by blast
qed

lemma mark_sent_length [simp]: "length (mark_sent S now rs) = length rs"
  by (simp add: mark_sent_def)

lemma mark_sent_nth:
  "i < length rs \<Longrightarrow>
   mark_sent S now rs ! i
     = (if rid (rs ! i) \<in> S then (rs ! i)\<lparr>is_sent := True, sent_at := Some now\<rparr> else rs ! i)"
  by (simp add: mark_sent_def)

lemma kept_refl: "kept r r"
  by (simp add: kept_def)

lemma kept_trans: "kept r r' \<Longrightarrow> kept r' r'' \<Longrightarrow> kept r r''"
  by (simp add: kept_def)

lemma extends_refl: "extends d d"
  by (simp add: extends_def kept_refl)

lemma extends_trans:
  assumes "extends d d'" "extends d' d''"
  shows "extends d d''"
proof -
  from assms have l: "length (reminders d) \<le> length (reminders d')"
    "length (reminders d') \<le> length (reminders d'')"
    by (simp_all add: extends_def)
  have "kept (reminders d ! i) (reminders d'' ! i)" if i: "i < length (reminders d)" for i
  proof -
    from i l have i': "i < length (reminders d')" by simp
    from assms(1) i have "kept (reminders d ! i) (reminders d' ! i)" by (simp add: extends_def)
    moreover from assms(2) i' have "kept (reminders d' ! i) (reminders d'' ! i)"
      by (simp add: extends_def)
    ultimately show ?thesis by (rule kept_trans)
  qed
  with l show ?thesis by (simp add: extends_def)
qed

lemma step_consistent:
  assumes "sent_consistent d"
  shows "sent_consistent (fst (engine_step op (d, ob)))"
proof (cases op)
  case (Import rt user_email rows)
  from import_appends [of rt d user_email rows] obtain rs where
    "reminders (fst (import_deadlines rt d user_email rows)) = reminders d @ rs"
    "\<forall>r \<in> set rs. \<not> is_sent r \<and> sent_at r = None" by blast
  with assms show ?thesis unfolding Import by (auto simp: sent_consistent_def list_all_iff)
next
  case (Dispatch ev now)
  from dispatch_rows [of ev now d ob] obtain S where
    "reminders (fst (send_due_reminders ev now d ob)) = mark_sent S now (reminders d)" by blast
  with assms show ?thesis unfolding Dispatch
    by (auto simp: sent_consistent_def list_all_iff mark_sent_def)
qed

lemma step_extends: "extends d (fst (engine_step op (d, ob)))"
proof (cases op)
  case (Import rt user_email rows)
  from import_appends [of rt d user_email rows] obtain rs where
    "reminders (fst (import_deadlines rt d user_email rows)) = reminders d @ rs" by blast
  then show ?thesis unfolding Import by (simp add: extends_def nth_append kept_refl)
next
  case (Dispatch ev now)
  from dispatch_rows [of ev now d ob] obtain S where
    "reminders (fst (send_due_reminders ev now d ob)) = mark_sent S now (reminders d)" by blast
  then show ?thesis unfolding Dispatch by (simp add: extends_def mark_sent_nth kept_def)
qed

lemma run_consistent:
  "sent_consistent (fst s) \<Longrightarrow> sent_consistent (fst (engine_run ops s))"
proof (induction ops arbitrary: s)
  case Nil
  then show ?case by (simp add: engine_run_def)
next
  case (Cons op ops)
  obtain d ob where s: "s = (d, ob)" by (cases s)
  from Cons.prems have "sent_consistent (fst (engine_step op (d, ob)))"
    unfolding s by (simp add: step_consistent)
  from Cons.IH [OF this] show ?case by (simp add: engine_run_def s)
qed

lemma run_extends: "extends (fst s) (fst (engine_run ops s))"
proof (induction ops arbitrary: s)
  case Nil
  show ?case by (simp add: engine_run_def extends_refl)
next
  case (Cons op ops)
  obtain d ob where s: "s = (d, ob)" by (cases s)
  have 1: "extends (fst s) (fst (engine_step op s))" unfolding s by (simp add: step_extends)
  have 2: "extends (fst (engine_step op s)) (fst (engine_run ops (engine_step op s)))"
    by (rule Cons.IH)
  from extends_trans [OF 1 2] show ?case by (simp add: engine_run_def)
qed

lemma demo_dispatch_after_import:
  "fst (send_due_reminders demo_env (mk_datetime 2024 1 9 8 0)
     (fresh_db\<lparr>events := [\<lparr>eid = 1, user_id = 1, title = str ''Tax return'', description = [],
                            due_at = mk_datetime 2024 1 10 7 0, status = STATUS_OPEN\<rparr>],
               reminders := [\<lparr>rid = 1, event_id = 1, channel = CHANNEL_EMAIL,
                               send_at = mk_datetime 2024 1 9 7 0, is_sent = False, sent_at = None\<rparr>,
                             \<lparr>rid = 2, event_id = 1, channel = CHANNEL_EMAIL,
                               send_at = mk_datetime 2024 1 10 6 0, is_sent = False, sent_at = None\<rparr>]\<rparr>)
     [])
   = fresh_db\<lparr>events := [\<lparr>eid = 1, user_id = 1, title = str ''Tax return'', description = [],
                            due_at = mk_datetime 2024 1 10 7 0, status = STATUS_OPEN\<rparr>],
               reminders := [\<lparr>rid = 1, event_id = 1, channel = CHANNEL_EMAIL,
                               send_at = mk_datetime 2024 1 9 7 0, is_sent = True,
                               sent_at = Some (mk_datetime 2024 1 9 8 0)\<rparr>,
                             \<lparr>rid = 2, event_id = 1, channel = CHANNEL_EMAIL,
                               send_at = mk_datetime 2024 1 10 6 0, is_sent = False, sent_at = None\<rparr>]\<rparr>"
proof -
  have t: "mk_datetime 2024 1 9 7 0 \<le> mk_datetime 2024 1 9 8 0"
    "\<not> mk_datetime 2024 1 10 6 0 \<le> mk_datetime 2024 1 9 8 0"
    by (simp_all add: demo_times demo_times_Suc)
  note t' = t [unfolded One_nat_def]
  show ?thesis
    unfolding send_due_reminders_def due_reminders_def
    by (simp add: fresh_db_def List.map_filter_def select_related_def get_event_def get_user_def
        is_due_def t t' ann_def bob_def demo_env_def save_sent_def Let_def str_def)
qed

section \<open>Claims about the sent flag\<close>

text \<open>
  C5. From a database in which the sent flag of every reminder says whether its sent
  timestamp is set, every run of imports and dispatches, whatever their outcomes, leads
  to such a database, and it keeps every reminder at its place with its key, event,
  channel and send time, a sent flag that was set staying set. The import only appends
  reminders, each with the flag false and no sent timestamp. The dispatch leaves the
  number of reminders as it is, and each reminder either as it was or with the flag
  true and the sent timestamp set to the time of the invocation, both together; on a
  database with unique keys such a reminder was unsent before.
\<close>

theorem sent_flag_matches_timestamp:
  assumes inv: "sent_consistent d"
  shows "sent_consistent (fst (engine_run ops (d, ob)))
       \<and> extends d (fst (engine_run ops (d, ob)))
       \<and> (\<exists>rs. reminders (fst (import_deadlines rt d user_email rows)) = reminders d @ rs
              \<and> (\<forall>r \<in> set rs. \<not> is_sent r \<and> sent_at r = None))
       \<and> length (reminders (fst (send_due_reminders ev now d ob))) = length (reminders d)
       \<and> (\<forall>i < length (reminders d).
             reminders (fst (send_due_reminders ev now d ob)) ! i = reminders d ! i
           \<or> reminders (fst (send_due_reminders ev now d ob)) ! i
                = (reminders d ! i)\<lparr>is_sent := True, sent_at := Some now\<rparr>
              \<and> (wf_db d \<longrightarrow> \<not> is_sent (reminders d ! i)))"
proof -
  have 1: "sent_consistent (fst (engine_run ops (d, ob)))"
    using run_consistent [of "(d, ob)" ops] inv by simp
  have 2: "extends d (fst (engine_run ops (d, ob)))"
    using run_extends [of "(d, ob)" ops] by simp
  note 3 = import_appends [of rt d user_email rows]
  from dispatch_rows [of ev now d ob] obtain S where
    m: "reminders (fst (send_due_reminders ev now d ob)) = mark_sent S now (reminders d)"
    and w: "wf_db d \<longrightarrow> (\<forall>r \<in> set (reminders d). rid r \<in> S \<longrightarrow> \<not> is_sent r)" by blast
  have 4: "length (reminders (fst (send_due_reminders ev now d ob))) = length (reminders d)"
    unfolding m by simp
  have 5: "\<forall>i < length (reminders d).
             reminders (fst (send_due_reminders ev now d ob)) ! i = reminders d ! i
           \<or> reminders (fst (send_due_reminders ev now d ob)) ! i
                = (reminders d ! i)\<lparr>is_sent := True, sent_at := Some now\<rparr>
              \<and> (wf_db d \<longrightarrow> \<not> is_sent (reminders d ! i))"
  proof (intro allI impI)
    fix i assume i: "i < length (reminders d)"
    then have mem: "reminders d ! i \<in> set (reminders d)" by simp
    show "reminders (fst (send_due_reminders ev now d ob)) ! i = reminders d ! i
           \<or> reminders (fst (send_due_reminders ev now d ob)) ! i
                = (reminders d ! i)\<lparr>is_sent := True, sent_at := Some now\<rparr>
              \<and> (wf_db d \<longrightarrow> \<not> is_sent (reminders d ! i))"
    proof (cases "rid (reminders d ! i) \<in> S")
      case False
      then show ?thesis unfolding m by (simp add: mark_sent_nth [OF i])
    next
      case True
      with w mem have "wf_db d \<longrightarrow> \<not> is_sent (reminders d ! i)" by blast
      with True show ?thesis unfolding m by (simp add: mark_sent_nth [OF i])
    qed
  qed
  from 1 2 3 4 5 show ?thesis by blast
qed

theorem sent_flag_matches_timestamp_witness:
  "sent_consistent fresh_db
   \<and> fst (engine_run
        [Import demo_rt (str ''ann@example.com'')
           [demo_row (str ''Tax return'') (str ''2024-01-10 09:00'') (str ''1440,60'')],
         Dispatch demo_env (mk_datetime 2024 1 9 8 0)] (fresh_db, []))
     = fresh_db\<lparr>events := [\<lparr>eid = 1, user_id = 1, title = str ''Tax return'', description = [],
                            due_at = mk_datetime 2024 1 10 7 0, status = STATUS_OPEN\<rparr>],
               reminders := [\<lparr>rid = 1, event_id = 1, channel = CHANNEL_EMAIL,
                               send_at = mk_datetime 2024 1 9 7 0, is_sent = True,
                               sent_at = Some (mk_datetime 2024 1 9 8 0)\<rparr>,
                             \<lparr>rid = 2, event_id = 1, channel = CHANNEL_EMAIL,
                               send_at = mk_datetime 2024 1 10 6 0, is_sent = False, sent_at = None\<rparr>]\<rparr>
   \<and> sent_consistent (fst (engine_run
        [Import demo_rt (str ''ann@example.com'')
           [demo_row (str ''Tax return'') (str ''2024-01-10 09:00'') (str ''1440,60'')],
         Dispatch demo_env (mk_datetime 2024 1 9 8 0)] (fresh_db, [])))"
proof -
  have inv: "sent_consistent fresh_db"
    by (simp add: sent_consistent_def fresh_db_def)
  have imp: "import_deadlines demo_rt fresh_db (str ''ann@example.com'')
     [demo_row (str ''Tax return'') (str ''2024-01-10 09:00'') (str ''1440,60'')]
   = (fresh_db\<lparr>events := [\<lparr>eid = 1, user_id = 1, title = str ''Tax return'', description = [],
                            due_at = mk_datetime 2024 1 10 7 0, status = STATUS_OPEN\<rparr>],
               reminders := [\<lparr>rid = 1, event_id = 1, channel = CHANNEL_EMAIL,
                               send_at = mk_datetime 2024 1 9 7 0, is_sent = False, sent_at = None\<rparr>,
                             \<lparr>rid = 2, event_id = 1, channel = CHANNEL_EMAIL,
                               send_at = mk_datetime 2024 1 10 6 0, is_sent = False, sent_at = None\<rparr>]\<rparr>,
      [], Inr 1)"
    using demo_import_ok [of demo_rt] by (simp only: demo_rt_parse)
  have run: "fst (engine_run
        [Import demo_rt (str ''ann@example.com'')
           [demo_row (str ''Tax return'') (str ''2024-01-10 09:00'') (str ''1440,60'')],
         Dispatch demo_env (mk_datetime 2024 1 9 8 0)] (fresh_db, []))
     = fresh_db\<lparr>events := [\<lparr>eid = 1, user_id = 1, title = str ''Tax return'', description = [],
                            due_at = mk_datetime 2024 1 10 7 0, status = STATUS_OPEN\<rparr>],
               reminders := [\<lparr>rid = 1, event_id = 1, channel = CHANNEL_EMAIL,
                               send_at = mk_datetime 2024 1 9 7 0, is_sent = True,
                               sent_at = Some (mk_datetime 2024 1 9 8 0)\<rparr>,
                             \<lparr>rid = 2, event_id = 1, channel = CHANNEL_EMAIL,
                               send_at = mk_datetime 2024 1 10 6 0, is_sent = False, sent_at = None\<rparr>]\<rparr>"
    unfolding engine_run_def
    by (simp only: fold_simps engine_step.simps imp fst_conv comp_def id_apply
        demo_dispatch_after_import)
  from sent_flag_matches_timestamp [OF inv]
  have "sent_consistent (fst (engine_run
        [Import demo_rt (str ''ann@example.com'')
           [demo_row (str ''Tax return'') (str ''2024-01-10 09:00'') (str ''1440,60'')],
         Dispatch demo_env (mk_datetime 2024 1 9 8 0)] (fresh_db, [])))"
    by (rule conjunct1)
  with inv run show ?thesis by blast
qed

end
